theory Spec2Isabelle
  imports Main "HOL-Library.Sublist"
begin

section \<open>C strings and libc helpers\<close>

text \<open>
  A C string is modelled by the list of its characters before the terminating NUL.
  \<open>cstr\<close> reads a byte buffer as a C string; \<open>cget s i\<close> is \<open>s[i]\<close>, which is the
  terminator when \<open>i\<close> is the length of the string.
\<close>

definition NUL :: char where
  "NUL = CHR 0x00"

definition cstr :: "string \<Rightarrow> string" where
  "cstr bs = takeWhile (\<lambda>c. c \<noteq> NUL) bs"

definition cget :: "string \<Rightarrow> nat \<Rightarrow> char" where
  "cget s i = (if i < length s then s ! i else NUL)"

definition crlf :: string where
  "crlf = [CHR 0x0D, CHR 0x0A]"

definition nl :: string where
  "nl = [CHR 0x0A]"

definition tab :: string where
  "tab = [CHR 0x09]"

text \<open>\<open>strchr(s, c)\<close> and \<open>strstr(s, n)\<close>: the offset of the first match, if any.\<close>

definition strchr :: "string \<Rightarrow> char \<Rightarrow> nat option" where
  "strchr s c =
     (let q = length (takeWhile (\<lambda>x. x \<noteq> c) s) in if q < length s then Some q else None)"

fun strstr :: "string \<Rightarrow> string \<Rightarrow> nat option" where
  "strstr [] n = (if n = [] then Some 0 else None)"
| "strstr (c # cs) n = (if prefix n (c # cs) then Some 0 else map_option Suc (strstr cs n))"

text \<open>\<open>isspace\<close> and the value of a hexadecimal or decimal digit, in the C locale.\<close>

definition isspace :: "char \<Rightarrow> bool" where
  "isspace c \<longleftrightarrow> c \<in> {CHR '' '', CHR 0x09, CHR 0x0A, CHR 0x0B, CHR 0x0C, CHR 0x0D}"

definition hexval :: "char \<Rightarrow> nat option" where
  "hexval c =
     (let n = of_char c :: nat in
      if 48 \<le> n \<and> n \<le> 57 then Some (n - 48)
      else if 97 \<le> n \<and> n \<le> 102 then Some (n - 87)
      else if 65 \<le> n \<and> n \<le> 70 then Some (n - 55)
      else None)"

definition decval :: "char \<Rightarrow> nat option" where
  "decval c = (let n = of_char c :: nat in if 48 \<le> n \<and> n \<le> 57 then Some (n - 48) else None)"

text \<open>Unsigned decimal output, as \<open>%d\<close> prints a non-negative number.\<close>

definition digit_char :: "nat \<Rightarrow> char" where
  "digit_char n = ''0123456789'' ! n"

function dec :: "nat \<Rightarrow> string" where
  "dec n = (if n < 10 then [digit_char n] else dec (n div 10) @ [digit_char (n mod 10)])"
  by pat_completeness auto
termination
  by (relation "measure id") auto

declare dec.simps [simp del]

text \<open>
  \<open>%zu\<close> applied to an \<open>off_t\<close>: the 64-bit two's complement value read as unsigned.
\<close>

definition zu :: "int \<Rightarrow> string" where
  "zu x = dec (nat (x mod 2 ^ 64))"

text \<open>
  \<open>atoi\<close>, as glibc computes it: \<open>(int) strtol(s, NULL, 10)\<close>. White space is skipped, one
  sign is accepted, the digits are read, the value is clamped to the range of \<open>long\<close>
  and then cut to 32 bits.
\<close>

definition atoi :: "string \<Rightarrow> int" where
  "atoi s =
     (let t = dropWhile isspace s;
          neg = (cget t 0 = CHR ''-'');
          u = (if cget t 0 = CHR ''-'' \<or> cget t 0 = CHR ''+'' then drop 1 t else t);
          ds = takeWhile (\<lambda>c. decval c \<noteq> None) u;
          v = foldl (\<lambda>a c. 10 * a + int (the (decval c))) 0 ds;
          l = (if neg then max (- (2 ^ 63)) (- v) else min (2 ^ 63 - 1) v)
      in (l + 2 ^ 31) mod 2 ^ 32 - 2 ^ 31)"


section \<open>Path normalizer: normabspath\<close>

text \<open>
  \<open>seg_end path p\<close> is the offset of the first \<open>/\<close> at or after offset \<open>p\<close>, or the
  offset of the terminator when there is none: the pointer \<open>q\<close> of \<open>normabspath\<close>
  after \<open>strchr(p, '/')\<close> and its fallback \<open>strchr(p, '\0')\<close>.
\<close>

definition seg_end :: "string \<Rightarrow> nat \<Rightarrow> nat" where
  "seg_end path p = p + length (takeWhile (\<lambda>c. c \<noteq> CHR ''/'') (drop p path))"

text \<open>
  The backward scan \<open>for (p -= 2; p > path && *p != '/'; p--);\<close> started at offset \<open>i\<close>:
  it stops at offset 0 or at a slash and yields the offset where it stopped.
\<close>

fun scan_back :: "string \<Rightarrow> nat \<Rightarrow> nat" where
  "scan_back path 0 = 0"
| "scan_back path (Suc i) =
     (if cget path (Suc i) \<noteq> CHR ''/'' then scan_back path i else Suc i)"

text \<open>
  The block \<open>if (p != path + 1) { for (p -= 2; ...; p--); p++; }\<close> of the \<open>..\<close> case:
  the new offset of \<open>p\<close>, right after the slash before the previous component.
\<close>

definition backup :: "string \<Rightarrow> nat \<Rightarrow> nat" where
  "backup path p = (if p \<noteq> 1 then Suc (scan_back path (p - 2)) else p)"

text \<open>
  The main loop of \<open>normabspath\<close>, on the buffer \<open>path\<close> and the offset \<open>p\<close> of the pointer
  of the same name. \<open>last\<close> is the flag of the source; the squash step moves the tail
  behind \<open>q\<close> down to \<open>p\<close> (the \<open>memcpy\<close> of the source, which copies the bytes from
  \<open>q + 1\<close> up to and including the terminator, front to back) or cuts the string at \<open>p\<close>.
\<close>

function normloop :: "string \<Rightarrow> nat \<Rightarrow> string" where
  "normloop path p =
     (let q = seg_end path p; last = (\<not> q < length path) in
      if p = q \<or> (q - p = 1 \<and> cget path p = CHR ''.'') then
        (if last then take p path
         else normloop (take p path @ drop (q + 1) path) p)
      else if q - p = 2 \<and> cget path p = CHR ''.'' \<and> cget path (p + 1) = CHR ''.'' then
        (let p' = backup path p in
         if last then take p' path
         else normloop (take p' path @ drop (q + 1) path) p')
      else
        (if last then path else normloop path (q + 1)))"
  by pat_completeness auto
termination
  by (relation "measure (\<lambda>(path, p). length path - p)") (auto simp: seg_end_def)

declare normloop.simps [simp del]

text \<open>\<open>normabspath\<close>: \<open>None\<close> is the return value 1 (no leading slash).\<close>

definition normabspath :: "string \<Rightarrow> string option" where
  "normabspath path =
     (if cget path 0 \<noteq> CHR ''/'' then None else Some (normloop path 1))"

section \<open>Data of the server\<close>

datatype req_field = REQ_RANGE | REQ_MOD

fun req_field_str :: "req_field \<Rightarrow> string" where
  "req_field_str REQ_RANGE = ''Range''"
| "req_field_str REQ_MOD = ''If-Modified-Since''"

datatype req_method = M_GET | M_HEAD

fun req_method_str :: "req_method \<Rightarrow> string" where
  "req_method_str M_GET = ''GET''"
| "req_method_str M_HEAD = ''HEAD''"

record request =
  "method" :: req_method
  target :: string
  field :: "req_field \<Rightarrow> string"

datatype status =
    S_OK
  | S_PARTIAL_CONTENT
  | S_MOVED_PERMANENTLY
  | S_NOT_MODIFIED
  | S_BAD_REQUEST
  | S_FORBIDDEN
  | S_NOT_FOUND
  | S_METHOD_NOT_ALLOWED
  | S_REQUEST_TIMEOUT
  | S_REQUEST_TOO_LARGE
  | S_INTERNAL_SERVER_ERROR
  | S_VERSION_NOT_SUPPORTED

fun status_code :: "status \<Rightarrow> nat" where
  "status_code S_OK = 200"
| "status_code S_PARTIAL_CONTENT = 206"
| "status_code S_MOVED_PERMANENTLY = 301"
| "status_code S_NOT_MODIFIED = 304"
| "status_code S_BAD_REQUEST = 400"
| "status_code S_FORBIDDEN = 403"
| "status_code S_NOT_FOUND = 404"
| "status_code S_METHOD_NOT_ALLOWED = 405"
| "status_code S_REQUEST_TIMEOUT = 408"
| "status_code S_REQUEST_TOO_LARGE = 431"
| "status_code S_INTERNAL_SERVER_ERROR = 500"
| "status_code S_VERSION_NOT_SUPPORTED = 505"

fun status_str :: "status \<Rightarrow> string" where
  "status_str S_OK = ''OK''"
| "status_str S_PARTIAL_CONTENT = ''Partial Content''"
| "status_str S_MOVED_PERMANENTLY = ''Moved Permanently''"
| "status_str S_NOT_MODIFIED = ''Not Modified''"
| "status_str S_BAD_REQUEST = ''Bad Request''"
| "status_str S_FORBIDDEN = ''Forbidden''"
| "status_str S_NOT_FOUND = ''Not Found''"
| "status_str S_METHOD_NOT_ALLOWED = ''Method Not Allowed''"
| "status_str S_REQUEST_TIMEOUT = ''Request Time-out''"
| "status_str S_REQUEST_TOO_LARGE = ''Request Header Fields Too Large''"
| "status_str S_INTERNAL_SERVER_ERROR = ''Internal Server Error''"
| "status_str S_VERSION_NOT_SUPPORTED = ''HTTP Version not supported''"

text \<open>
  The constants that the source takes from \<open>config.h\<close> and from the system headers are
  parameters of the model: the buffer bounds, the index file name, the listing switch and
  the MIME table.
\<close>

record config =
  HEADER_MAX :: nat
  FIELD_MAX :: nat
  PATH_MAX :: nat
  BUFSIZ :: nat
  docindex :: string
  listdirs :: bool
  mimes :: "(string \<times> string) list"

subsection \<open>The world outside the process\<close>

text \<open>
  The socket is a script of what the next calls of \<open>read\<close> and \<open>write\<close> will meet, plus the
  bytes delivered to the peer so far. A read finds data, the end of the stream or an
  error; when the script is used up nothing more arrives and the receive timeout makes
  \<open>read\<close> fail. A write fails or is accepted up to a number of bytes; when the script is
  used up every write is accepted in full.
\<close>

datatype rd_event = RdData string | RdEOF | RdErr

datatype wr_event = WrFail | WrAccept nat

datatype fs_call = Stat string | Fopen string | Scandir string


record world =
  rd :: "rd_event list"
  wr :: "wr_event list"
  sent :: string
  now :: string
  fslog :: "fs_call list"
  fopened :: "string list"
  behind :: "string list"

text \<open>
  \<open>now\<close> is the formatted current time, \<open>fslog\<close> the paths handed to \<open>stat\<close>, \<open>fopen\<close> and
  \<open>scandir\<close> so far, \<open>fopened\<close> the names of the \<open>FILE\<close> handles that are open.

  \<open>behind\<close> is the memory of the process that lies behind the terminator of the target
  once \<open>getrequest\<close> has copied it into the request structure, which its caller passes
  without initializing it: the successive NUL-terminated strings found there, the first
  one starting right behind the terminator. Behind the last of them only NUL bytes
  follow.

  The file system and the time functions of libc are a read-only host: \<open>fs_stat\<close> is
  \<open>stat\<close>, \<open>fs_fopen\<close> gives the contents of a file that can be opened for reading,
  \<open>fs_scandir\<close> the array that \<open>scandir\<close> stores (already ordered by \<open>compareent\<close>),
  \<open>fmt_time\<close> is \<open>strftime\<close> of \<open>gmtime\<close> with the format of \<open>timestamp\<close>, and
  \<open>parse_time\<close> is \<open>strptime\<close> followed by \<open>mktime\<close> (\<open>None\<close> when \<open>strptime\<close> fails).
\<close>

datatype errno = EACCES | ENOENT | EOTHER

datatype ftype = F_DIR | F_REG | F_OTHER

record stat =
  st_mode :: ftype
  st_size :: int
  st_mtime :: int

definition S_ISDIR :: "stat \<Rightarrow> bool" where
  "S_ISDIR st \<longleftrightarrow> st_mode st = F_DIR"

definition S_ISREG :: "stat \<Rightarrow> bool" where
  "S_ISREG st \<longleftrightarrow> st_mode st = F_REG"

datatype dtype = DT_FIFO | DT_DIR | DT_LNK | DT_SOCK | DT_REG

record dirent =
  d_name :: string
  d_type :: dtype

record host =
  fs_stat :: "string \<Rightarrow> errno + stat"
  fs_fopen :: "string \<Rightarrow> string option"
  fs_scandir :: "string \<Rightarrow> dirent list option"
  fmt_time :: "int \<Rightarrow> string"
  parse_time :: "string \<Rightarrow> int option"

section \<open>Writing to the socket\<close>

text \<open>
  \<open>dprintf\<close> uses one write event: it fails on \<open>WrFail\<close> and otherwise delivers the whole
  string (libc repeats short writes itself). The result is \<open>True\<close> when the return value
  of \<open>dprintf\<close> is not negative.
\<close>

definition dprintf :: "world \<Rightarrow> string \<Rightarrow> bool \<times> world" where
  "dprintf w str =
     (case wr w of
        [] \<Rightarrow> (True, w\<lparr>sent := sent w @ str\<rparr>)
      | WrFail # es \<Rightarrow> (False, w\<lparr>wr := es\<rparr>)
      | WrAccept k # es \<Rightarrow> (True, w\<lparr>wr := es, sent := sent w @ str\<rparr>))"

text \<open>\<open>timestamp(t, buf)\<close>: the current time when \<open>t\<close> is 0.\<close>

definition timestamp :: "host \<Rightarrow> world \<Rightarrow> int \<Rightarrow> string" where
  "timestamp h w t = (if t = 0 then now w else fmt_time h t)"

definition status_line :: "status \<Rightarrow> string" where
  "status_line s = ''HTTP/1.1 '' @ dec (status_code s) @ '' '' @ status_str s @ crlf"

definition sendstatus :: "world \<Rightarrow> status \<Rightarrow> status \<times> world" where
  "sendstatus w s =
     (case dprintf w
        (status_line s @
         ''Date: '' @ now w @ crlf @
         ''Connection: close'' @ crlf @
         (if s = S_METHOD_NOT_ALLOWED then ''Allow: HEAD, GET'' @ crlf else []) @
         ''Content-Type: text/html'' @ crlf @
         crlf @
         ''<!DOCTYPE html>'' @ nl @ ''<html>'' @ nl @ tab @ ''<head>'' @ nl @
         tab @ tab @ ''<title>'' @ dec (status_code s) @ '' '' @ status_str s @ ''</title>'' @ nl @
         tab @ ''</head>'' @ nl @ tab @ ''<body>'' @ nl @
         tab @ tab @ ''<h1>'' @ dec (status_code s) @ '' '' @ status_str s @ ''</h1>'' @ nl @
         tab @ ''</body>'' @ nl @ ''</html>'' @ nl)
      of (False, w') \<Rightarrow> (S_REQUEST_TIMEOUT, w')
       | (True, w') \<Rightarrow> (s, w'))"


section \<open>Percent codec\<close>

text \<open>
  \<open>sscanf(s, "%2hhx", &n) == 1\<close>, as the scanner of glibc reads it: white space is skipped
  without counting for the field width; the input item is at most two characters long and
  is an optional sign followed by hexadecimal digits; the value is stored in an
  \<open>uint8_t\<close>. A \<open>0x\<close> prefix fills the width and is read as the number 0. The result is
  the stored byte, or \<open>None\<close> when the return value is not 1.
\<close>

definition sscanf_2hhx :: "string \<Rightarrow> char option" where
  "sscanf_2hhx s =
     (case dropWhile isspace s of
        [] \<Rightarrow> None
      | a # t \<Rightarrow>
          if a = CHR ''+'' \<or> a = CHR ''-'' then
            (case t of
               [] \<Rightarrow> None
             | b # _ \<Rightarrow>
                 (case hexval b of
                    None \<Rightarrow> None
                  | Some v \<Rightarrow> Some (char_of (if a = CHR ''-'' then - int v else int v))))
          else
            (case hexval a of
               None \<Rightarrow> None
             | Some v \<Rightarrow>
                 (case t of
                    [] \<Rightarrow> Some (char_of v)
                  | b # _ \<Rightarrow>
                      (case hexval b of
                         None \<Rightarrow> Some (char_of v)
                       | Some u \<Rightarrow> Some (char_of (16 * v + u))))))"

text \<open>
  \<open>decode\<close> on the source string \<open>src\<close> and the memory \<open>mem\<close> behind its terminator (see
  \<open>behind\<close>); the result is the bytes written to \<open>dest\<close> before the final terminator (one
  of them can be NUL). After a successful \<open>sscanf\<close> the source pointer advances by two and
  then by one more. When only one character follows the percent sign this steps over the
  terminator, and the loop goes on with the bytes that lie behind it, up to the next NUL.
  Writing never overtakes reading, so decoding in place (\<open>src == dest\<close>, as \<open>getrequest\<close>
  calls it) gives the same bytes.
\<close>

fun decode :: "string \<Rightarrow> string list \<Rightarrow> string" where
  "decode [] mem = []"
| "decode (c # cs) mem =
     (if c = CHR ''+'' then CHR '' '' # decode cs mem
      else if c = CHR ''%'' \<and> sscanf_2hhx cs \<noteq> None then
        (case cs of
           a # b # rest \<Rightarrow> the (sscanf_2hhx cs) # decode rest mem
         | _ \<Rightarrow>
             the (sscanf_2hhx cs) # (case mem of [] \<Rightarrow> [] | m # ms \<Rightarrow> decode m ms))
      else c # decode cs mem)"

text \<open>
  \<open>encode\<close>, for results that fit the destination buffer: control bytes and bytes above
  127 become \<open>%XX\<close>.
\<close>

definition hex_digit :: "nat \<Rightarrow> char" where
  "hex_digit n = ''0123456789ABCDEF'' ! n"

definition iscntrl :: "char \<Rightarrow> bool" where
  "iscntrl c \<longleftrightarrow> (of_char c :: nat) < 32 \<or> (of_char c :: nat) = 127"

definition encode :: "string \<Rightarrow> string" where
  "encode src =
     concat (map (\<lambda>c. if iscntrl c \<or> (of_char c :: nat) > 127
                       then [CHR ''%'', hex_digit ((of_char c :: nat) div 16),
                             hex_digit ((of_char c :: nat) mod 16)]
                       else [c]) src)"


section \<open>Request parser: getrequest\<close>

text \<open>
  The receive loop. \<open>h\<close> is the part of the header buffer filled so far; a read takes at
  most the room left in the buffer. The result is the status to answer with, or the
  bytes received when the loop is left by \<open>break\<close>, together with the rest of the read
  script.
\<close>

definition header_end :: "string \<Rightarrow> bool" where
  "header_end h \<longleftrightarrow> length h \<ge> 4 \<and> drop (length h - 4) h = crlf @ crlf"

fun recv_header :: "nat \<Rightarrow> rd_event list \<Rightarrow> string \<Rightarrow> (status + string) \<times> rd_event list" where
  "recv_header hmax [] h = (Inl S_REQUEST_TIMEOUT, [])"
| "recv_header hmax (RdErr # evs) h = (Inl S_REQUEST_TIMEOUT, evs)"
| "recv_header hmax (RdEOF # evs) h = (Inr h, evs)"
| "recv_header hmax (RdData d # evs) h =
     (let got = take (hmax - length h) d;
          evs' = (if length d > hmax - length h then RdData (drop (hmax - length h) d) # evs
                  else evs)
      in if got = [] then (Inr h, evs')
         else if header_end (h @ got) then (Inr (h @ got), evs')
         else if length (h @ got) = hmax then (Inl S_REQUEST_TOO_LARGE, evs')
         else recv_header hmax evs (h @ got))"

text \<open>The method loop: the first method name that the header begins with.\<close>

definition match_method :: "string \<Rightarrow> req_method option" where
  "match_method h =
     (if prefix (req_method_str M_GET) h then Some M_GET
      else if prefix (req_method_str M_HEAD) h then Some M_HEAD
      else None)"

text \<open>The field loop: the first field name that the line at \<open>p\<close> begins with.\<close>

definition match_field :: "string \<Rightarrow> req_field option" where
  "match_field p =
     (if prefix (req_field_str REQ_RANGE) p then Some REQ_RANGE
      else if prefix (req_field_str REQ_MOD) p then Some REQ_MOD
      else None)"

text \<open>
  The loop over the request fields, on the rest \<open>p\<close> of the header and the field slots
  \<open>f\<close> of the request.
\<close>

function parse_fields ::
  "nat \<Rightarrow> string \<Rightarrow> (req_field \<Rightarrow> string) \<Rightarrow> status + (req_field \<Rightarrow> string)" where
  "parse_fields fmax p f =
     (if p = [] then Inr f
      else case match_field p of
        None \<Rightarrow>
          (case strstr p crlf of
             None \<Rightarrow> Inl S_BAD_REQUEST
           | Some q \<Rightarrow> parse_fields fmax (drop (q + 2) p) f)
      | Some i \<Rightarrow>
          if cget p (length (req_field_str i)) \<noteq> CHR '':'' then Inl S_BAD_REQUEST
          else
            (case strstr (dropWhile (\<lambda>c. c = CHR '' '') (drop (length (req_field_str i) + 1) p))
                    crlf of
               None \<Rightarrow> Inl S_BAD_REQUEST
             | Some q \<Rightarrow>
                 if q + 1 > fmax then Inl S_REQUEST_TOO_LARGE
                 else parse_fields fmax
                        (drop (q + 2)
                           (dropWhile (\<lambda>c. c = CHR '' '') (drop (length (req_field_str i) + 1) p)))
                        (f(i := take q
                           (dropWhile (\<lambda>c. c = CHR '' '')
                              (drop (length (req_field_str i) + 1) p))))))"
  by pat_completeness auto
termination
proof (relation "measure (\<lambda>(fmax, p, f). length p)")
  show "wf (measure (\<lambda>(fmax, p, f). length p))" by simp
next
  fix fmax :: nat and p :: string and f :: "req_field \<Rightarrow> string" and q :: nat
  assume "p \<noteq> []"
  then show "((fmax, drop (q + 2) p, f), (fmax, p, f)) \<in> measure (\<lambda>(fmax, p, f). length p)"
    by (cases p) auto
next
  fix fmax :: nat and p :: string and f :: "req_field \<Rightarrow> string" and i :: req_field and q :: nat
  let ?p2 = "dropWhile (\<lambda>c. c = CHR '' '') (drop (length (req_field_str i) + 1) p)"
  assume "p \<noteq> []"
  moreover have "length ?p2 \<le> length p"
    using length_dropWhile_le [of "\<lambda>c. c = CHR '' ''" "drop (length (req_field_str i) + 1) p"]
    by simp
  ultimately show "((fmax, drop (q + 2) ?p2, f(i := take q ?p2)), (fmax, p, f))
      \<in> measure (\<lambda>(fmax, p, f). length p)"
    by (cases p) auto
qed

declare parse_fields.simps [simp del]

text \<open>
  What \<open>getrequest\<close> yields: a parsed request (return value 0) or the status it answered
  with.
\<close>

datatype presult = Failed status | Parsed request

text \<open>The loop "empty all fields".\<close>

definition empty_fields :: "req_field \<Rightarrow> string" where
  "empty_fields = (\<lambda>i. [])"

text \<open>
  The string that starts at \<open>r->target\<close> when \<open>getrequest\<close> returns 0, from the bytes
  \<open>d\<close> that \<open>decode\<close> wrote in place and the value \<open>f0\<close> stored in the first field,
  which lies right behind the target buffer. When the decoded bytes and their terminator
  fit the buffer the string is these bytes. Otherwise (after a scan that has left the
  copied target) the terminator was written behind the buffer, where the fields were
  stored afterwards: the string runs on into the first field.
\<close>

definition stored_target :: "nat \<Rightarrow> string \<Rightarrow> string \<Rightarrow> string" where
  "stored_target pmax d f0 =
     (if length (cstr d) < pmax then cstr d else take pmax (cstr d) @ f0)"

text \<open>
  The request line and the fields, on the header as a C string (the received bytes
  without the last two, up to the first NUL) and the memory \<open>mem\<close> behind the copied
  target. The target is decoded right after it has been copied; its value does not bear
  on the checks that follow.
\<close>

definition parse_header :: "config \<Rightarrow> string list \<Rightarrow> string \<Rightarrow> presult" where
  "parse_header cfg mem h =
     (case match_method h of
        None \<Rightarrow> Failed S_METHOD_NOT_ALLOWED
      | Some m \<Rightarrow>
          if cget h (length (req_method_str m)) \<noteq> CHR '' '' then Failed S_BAD_REQUEST
          else
            (let p = drop (length (req_method_str m) + 1) h in
             case strchr p (CHR '' '') of
               None \<Rightarrow> Failed S_BAD_REQUEST
             | Some q \<Rightarrow>
                 if q + 1 > PATH_MAX cfg then Failed S_REQUEST_TOO_LARGE
                 else
                   (let d = decode (take q p) mem;
                        p1 = drop (q + 1) p
                    in if \<not> prefix ''HTTP/'' p1 then Failed S_BAD_REQUEST
                       else if \<not> prefix ''1.0'' (drop 5 p1) \<and> \<not> prefix ''1.1'' (drop 5 p1)
                         then Failed S_VERSION_NOT_SUPPORTED
                       else if \<not> prefix crlf (drop 8 p1) then Failed S_BAD_REQUEST
                       else
                         (case parse_fields (FIELD_MAX cfg) (drop 10 p1) empty_fields of
                            Inl s \<Rightarrow> Failed s
                          | Inr f \<Rightarrow>
                              Parsed \<lparr>method = m,
                                      target = stored_target (PATH_MAX cfg) d (f REQ_RANGE),
                                      field = f\<rparr>))))"

text \<open>Every error exit of \<open>getrequest\<close> is \<open>return sendstatus(fd, s)\<close>.\<close>

definition reply :: "status \<Rightarrow> world \<Rightarrow> presult \<times> world" where
  "reply s w = (case sendstatus w s of (s', w') \<Rightarrow> (Failed s', w'))"

text \<open>The part of \<open>getrequest\<close> after the receive loop, on the bytes received.\<close>

definition parse_received :: "config \<Rightarrow> string \<Rightarrow> world \<Rightarrow> presult \<times> world" where
  "parse_received cfg h w =
     (if length h < 2 then reply S_BAD_REQUEST w
      else case parse_header cfg (behind w) (cstr (take (length h - 2) h)) of
             Failed s \<Rightarrow> reply s w
           | Parsed r \<Rightarrow> (Parsed r, w))"

definition getrequest :: "config \<Rightarrow> world \<Rightarrow> presult \<times> world" where
  "getrequest cfg w =
     (case recv_header (HEADER_MAX cfg) (rd w) [] of
        (Inl s, evs) \<Rightarrow> reply s (w\<lparr>rd := evs\<rparr>)
      | (Inr h, evs) \<Rightarrow> parse_received cfg h (w\<lparr>rd := evs\<rparr>))"


section \<open>Directory lister: senddir\<close>

definition dq :: string where
  "dq = [CHR 0x22]"

fun filetype :: "dtype \<Rightarrow> string" where
  "filetype DT_FIFO = ''|''"
| "filetype DT_DIR = ''/''"
| "filetype DT_LNK = ''@''"
| "filetype DT_SOCK = ''=''"
| "filetype DT_REG = ''''"

definition logfs :: "fs_call \<Rightarrow> world \<Rightarrow> world" where
  "logfs c w = w\<lparr>fslog := fslog w @ [c]\<rparr>"

text \<open>The listing loop; \<open>False\<close> when a \<open>dprintf\<close> fails.\<close>

fun send_entries :: "world \<Rightarrow> dirent list \<Rightarrow> bool \<times> world" where
  "send_entries w [] = (True, w)"
| "send_entries w (e # es) =
     (if cget (d_name e) 0 = CHR ''.'' then send_entries w es
      else
        (case dprintf w
           (''<br />'' @ nl @ tab @ tab @ ''<a href='' @ dq @ d_name e @ dq @ ''>'' @
            d_name e @ filetype (d_type e) @ ''</a>'')
         of (False, w') \<Rightarrow> (False, w')
          | (True, w') \<Rightarrow> send_entries w' es))"

definition senddir :: "host \<Rightarrow> string \<Rightarrow> request \<Rightarrow> world \<Rightarrow> status \<times> world" where
  "senddir h name r w =
     (case fs_scandir h name of
        None \<Rightarrow> sendstatus (logfs (Scandir name) w) S_FORBIDDEN
      | Some e \<Rightarrow>
          (case dprintf (logfs (Scandir name) w)
             (status_line S_OK @
              ''Date: '' @ now w @ crlf @
              ''Connection: close'' @ crlf @
              ''Content-Type: text/html'' @ crlf @
              crlf)
           of (False, w1) \<Rightarrow> (S_REQUEST_TIMEOUT, w1)
            | (True, w1) \<Rightarrow>
                if method r = M_GET then
                  (case dprintf w1
                     (''<!DOCTYPE html>'' @ nl @ ''<html>'' @ nl @ tab @ ''<head>'' @
                      ''<title>Index of '' @ name @ ''</title></head>'' @ nl @
                      tab @ ''<body>'' @ nl @ tab @ tab @
                      ''<a href='' @ dq @ ''..'' @ dq @ ''>..</a>'')
                   of (False, w2) \<Rightarrow> (S_REQUEST_TIMEOUT, w2)
                    | (True, w2) \<Rightarrow>
                        (case send_entries w2 e of
                           (False, w3) \<Rightarrow> (S_REQUEST_TIMEOUT, w3)
                         | (True, w3) \<Rightarrow>
                             (case dprintf w3 (nl @ tab @ ''</body>'' @ nl @ ''</html>'' @ nl)
                              of (False, w4) \<Rightarrow> (S_REQUEST_TIMEOUT, w4)
                               | (True, w4) \<Rightarrow> (S_OK, w4))))
                else (S_OK, w1)))"

section \<open>File sender: sendfile\<close>

text \<open>
  One call of \<open>write(fd, p, n)\<close>: the return value and the world after it.
\<close>

definition write_call :: "world \<Rightarrow> string \<Rightarrow> int \<times> world" where
  "write_call w p =
     (case wr w of
        [] \<Rightarrow> (int (length p), w\<lparr>sent := sent w @ p\<rparr>)
      | WrFail # es \<Rightarrow> (- 1, w\<lparr>wr := es\<rparr>)
      | WrAccept k # es \<Rightarrow>
          (int (min k (length p)), w\<lparr>wr := es, sent := sent w @ take k p\<rparr>))"

text \<open>
  The inner loop \<open>while (bread > 0)\<close>, on the bytes of the buffer not written yet;
  \<open>False\<close> is the exit \<open>return S_REQUEST_TIMEOUT\<close>.
\<close>

function write_all :: "world \<Rightarrow> string \<Rightarrow> bool \<times> world" where
  "write_all w p =
     (if p = [] then (True, w)
      else (case write_call w p of
              (bwritten, w') \<Rightarrow>
                if bwritten \<le> 0 then (False, w')
                else write_all w' (drop (nat bwritten) p)))"
  by pat_completeness auto
termination
  by (relation "measure (\<lambda>(w, p). length p)") auto

declare write_all.simps [simp del]

text \<open>
  The outer loop over \<open>fread\<close>. \<open>data\<close> is the file from the current position on and
  \<open>remaining\<close> the variable of that name. \<open>MIN(sizeof(buf), remaining)\<close> compares in
  \<open>size_t\<close>, so a negative \<open>remaining\<close> counts as a huge number. \<open>fread\<close> returns the
  number of bytes it read, never a negative number. The result is \<open>Some\<close> of the status
  of a \<open>return\<close> inside the loop, or \<open>None\<close> when the loop ends.
\<close>

function send_body :: "nat \<Rightarrow> string \<Rightarrow> int \<Rightarrow> world \<Rightarrow> status option \<times> world" where
  "send_body bufsiz data remaining w =
     (let n = (if remaining < 0 \<or> int bufsiz < remaining then bufsiz else nat remaining);
          bread = int (length (take n data))
      in if bread = 0 then (None, w)
         else if bread < 0 then (Some S_INTERNAL_SERVER_ERROR, w)
         else (case write_all w (take n data) of
                 (False, w') \<Rightarrow> (Some S_REQUEST_TIMEOUT, w')
               | (True, w') \<Rightarrow> send_body bufsiz (drop n data) (remaining - bread) w'))"
  by pat_completeness auto
termination
  by (relation "measure (\<lambda>(bufsiz, data, remaining, w). length data)") auto

declare send_body.simps [simp del]

definition fclose :: "string \<Rightarrow> world \<Rightarrow> world" where
  "fclose name w = w\<lparr>fopened := remove1 name (fopened w)\<rparr>"

text \<open>
  \<open>sendfile\<close>. \<open>fseek\<close> to a non-negative offset succeeds, also behind the end of the
  file. The exits through \<open>cleanup\<close> close the file; the two \<open>return\<close> statements inside
  the read loop do not pass through \<open>cleanup\<close>.
\<close>

definition sendfile ::
  "host \<Rightarrow> config \<Rightarrow> request \<Rightarrow> string \<Rightarrow> stat \<Rightarrow> string \<Rightarrow> int \<Rightarrow> int \<Rightarrow> world
   \<Rightarrow> status \<times> world" where
  "sendfile h cfg r name st mime lower upper w =
     (case fs_fopen h name of
        None \<Rightarrow> sendstatus (logfs (Fopen name) w) S_FORBIDDEN
      | Some content \<Rightarrow>
          (let w0 = (logfs (Fopen name) w)\<lparr>fopened := name # fopened w\<rparr> in
           if lower < 0 then
             (case sendstatus w0 S_INTERNAL_SERVER_ERROR of (s, w1) \<Rightarrow> (s, fclose name w1))
           else
             (let range = (field r REQ_RANGE \<noteq> []);
                  s = (if range then S_PARTIAL_CONTENT else S_OK)
              in case dprintf w0
                   (status_line s @
                    ''Date: '' @ now w @ crlf @
                    ''Connection: close'' @ crlf @
                    ''Last-Modified: '' @ timestamp h w (st_mtime st) @ crlf @
                    ''Content-Type: '' @ mime @ crlf @
                    ''Content-Length: '' @ zu (upper - lower) @ crlf)
                 of (False, w1) \<Rightarrow> (S_REQUEST_TIMEOUT, fclose name w1)
                  | (True, w1) \<Rightarrow>
                      (case (if range
                             then dprintf w1
                                    (''Content-Range: bytes '' @ zu lower @ ''-'' @
                                     zu (upper - 1) @ ''/'' @ zu (st_size st) @ crlf)
                             else (True, w1))
                       of (False, w2) \<Rightarrow> (S_REQUEST_TIMEOUT, fclose name w2)
                        | (True, w2) \<Rightarrow>
                            (case dprintf w2 crlf of
                               (False, w3) \<Rightarrow> (S_REQUEST_TIMEOUT, fclose name w3)
                             | (True, w3) \<Rightarrow>
                                 if method r = M_GET then
                                   (case send_body (BUFSIZ cfg) (drop (nat lower) content)
                                           (upper - lower + 1) w3
                                    of (Some e, w4) \<Rightarrow> (e, w4)
                                     | (None, w4) \<Rightarrow> (s, fclose name w4))
                                 else (s, fclose name w3))))))"


section \<open>Response planner: sendresponse\<close>

text \<open>The test "reject hidden target".\<close>

definition hidden :: "string \<Rightarrow> bool" where
  "hidden rt \<longleftrightarrow> cget rt 0 = CHR ''.'' \<or> strstr rt ''/.'' \<noteq> None"

text \<open>\<open>strrchr\<close>, and the MIME type of the first table entry for the text after the last dot.\<close>

definition strrchr :: "string \<Rightarrow> char \<Rightarrow> nat option" where
  "strrchr s c =
     (if c \<in> set s then Some (length s - 1 - length (takeWhile (\<lambda>x. x \<noteq> c) (rev s)))
      else None)"

definition mime_of :: "(string \<times> string) list \<Rightarrow> string \<Rightarrow> string" where
  "mime_of ms path =
     (case strrchr path (CHR ''.'') of
        None \<Rightarrow> ''application/octet-stream''
      | Some q \<Rightarrow>
          (case map_of ms (drop (q + 1) path) of
             None \<Rightarrow> ''application/octet-stream''
           | Some t \<Rightarrow> t))"

text \<open>
  The range step, on the \<open>Range\<close> field and the size of the file: the status to answer
  with, or \<open>lower\<close> and \<open>upper\<close>.
\<close>

definition plan_range :: "string \<Rightarrow> int \<Rightarrow> status + int \<times> int" where
  "plan_range fld sz =
     (if fld = [] then Inr (0, sz)
      else if \<not> prefix ''bytes='' fld then Inl S_BAD_REQUEST
      else
        (case strchr (drop 6 fld) (CHR ''-'') of
           None \<Rightarrow> Inl S_BAD_REQUEST
         | Some q \<Rightarrow>
             (let lower = (if take q (drop 6 fld) \<noteq> [] then atoi (take q (drop 6 fld)) else 0);
                  upper = (if drop (q + 1) (drop 6 fld) \<noteq> []
                           then atoi (drop (q + 1) (drop 6 fld)) else sz)
              in if lower < 0 \<or> upper < 0 \<or> lower > upper then Inl S_BAD_REQUEST
                 else Inr (lower, min sz upper))))"

text \<open>
  The step "modified since": \<open>Some\<close> of the status of a \<open>return\<close>, or \<open>None\<close> when control
  goes on to the range step. After the 304 header has been written the source has no
  \<open>return\<close>.
\<close>

definition plan_cond :: "host \<Rightarrow> request \<Rightarrow> stat \<Rightarrow> world \<Rightarrow> status option \<times> world" where
  "plan_cond h r st w =
     (if field r REQ_MOD = [] then (None, w)
      else
        (case parse_time h (field r REQ_MOD) of
           None \<Rightarrow> (case sendstatus w S_BAD_REQUEST of (s, w') \<Rightarrow> (Some s, w'))
         | Some t \<Rightarrow>
             if st_mtime st - t \<le> 0 then
               (case dprintf w
                  (status_line S_NOT_MODIFIED @
                   ''Date: '' @ now w @ crlf @
                   ''Connection: close'' @ crlf @
                   crlf)
                of (False, w') \<Rightarrow> (Some S_REQUEST_TIMEOUT, w')
                 | (True, w') \<Rightarrow> (None, w'))
             else (None, w)))"

text \<open>
  What the planner decides: it has answered itself and returns a status, or it hands a
  directory to \<open>senddir\<close>, or a file with its MIME type and the bounds \<open>lower\<close> and \<open>upper\<close>
  to \<open>sendfile\<close>.
\<close>

datatype plan = Done status | ToDir string | ToFile string stat string int int

definition answered :: "status \<times> world \<Rightarrow> plan \<times> world" where
  "answered sw = (Done (fst sw), snd sw)"

text \<open>The steps from "modified since" to the call of \<open>sendfile\<close>, for the file \<open>rt\<close>.\<close>

definition plan_file :: "host \<Rightarrow> config \<Rightarrow> request \<Rightarrow> string \<Rightarrow> stat \<Rightarrow> world \<Rightarrow> plan \<times> world" where
  "plan_file h cfg r rt st w =
     (case plan_cond h r st w of
        (Some s, w') \<Rightarrow> (Done s, w')
      | (None, w') \<Rightarrow>
          (case plan_range (field r REQ_RANGE) (st_size st) of
             Inl s \<Rightarrow> answered (sendstatus w' s)
           | Inr (lower, upper) \<Rightarrow> (ToFile rt st (mime_of (mimes cfg) rt) lower upper, w')))"

text \<open>
  The directory step "append docindex to target". When the second \<open>stat\<close> fails, \<open>st\<close>
  still holds the result of the first one.
\<close>

definition plan_index :: "host \<Rightarrow> config \<Rightarrow> request \<Rightarrow> stat \<Rightarrow> world \<Rightarrow> plan \<times> world" where
  "plan_index h cfg r st w =
     (if length (target r @ docindex cfg) \<ge> PATH_MAX cfg
      then answered (sendstatus w S_REQUEST_TOO_LARGE)
      else
        (let rt = target r @ docindex cfg;
             w1 = logfs (Stat rt) w;
             res = fs_stat h rt;
             st' = (case res of Inl e \<Rightarrow> st | Inr st2 \<Rightarrow> st2)
         in if isl res \<or> \<not> S_ISREG st' then
              (if listdirs cfg then (ToDir (take (length rt - length (docindex cfg)) rt), w1)
               else if \<not> S_ISREG st' \<or> res = Inl EACCES
                 then answered (sendstatus w1 S_FORBIDDEN)
               else answered (sendstatus w1 S_NOT_FOUND))
            else plan_file h cfg r rt st' w1))"

definition plan :: "host \<Rightarrow> config \<Rightarrow> request \<Rightarrow> world \<Rightarrow> plan \<times> world" where
  "plan h cfg r w =
     (case normabspath (target r) of
        None \<Rightarrow> answered (sendstatus w S_BAD_REQUEST)
      | Some rt \<Rightarrow>
          if hidden rt then answered (sendstatus w S_FORBIDDEN)
          else
            (case fs_stat h rt of
               Inl e \<Rightarrow>
                 answered (sendstatus (logfs (Stat rt) w)
                             (if e = EACCES then S_FORBIDDEN else S_NOT_FOUND))
             | Inr st \<Rightarrow>
                 if S_ISDIR st \<and> length rt = PATH_MAX cfg - 2
                 then answered (sendstatus (logfs (Stat rt) w) S_REQUEST_TOO_LARGE)
                 else
                   (let rt1 = (if S_ISDIR st \<and> rt \<noteq> [] \<and> last rt \<noteq> CHR ''/''
                               then rt @ ''/'' else rt)
                    in if target r \<noteq> rt1 then
                         (case dprintf (logfs (Stat rt) w)
                            (status_line S_MOVED_PERMANENTLY @
                             ''Date: '' @ now w @ crlf @
                             ''Connection: close'' @ crlf @
                             ''Location: '' @ encode rt1 @ crlf @
                             crlf)
                          of (False, w') \<Rightarrow> (Done S_REQUEST_TIMEOUT, w')
                           | (True, w') \<Rightarrow> (Done S_MOVED_PERMANENTLY, w'))
                       else if S_ISDIR st then plan_index h cfg r st (logfs (Stat rt) w)
                       else plan_file h cfg r rt1 st (logfs (Stat rt) w))))"

definition sendresponse :: "host \<Rightarrow> config \<Rightarrow> request \<Rightarrow> world \<Rightarrow> status \<times> world" where
  "sendresponse h cfg r w =
     (case plan h cfg r w of
        (Done s, w') \<Rightarrow> (s, w')
      | (ToDir name, w') \<Rightarrow> senddir h name r w'
      | (ToFile name st mime lower upper, w') \<Rightarrow> sendfile h cfg r name st mime lower upper w')"


section \<open>Shapes of normalized paths\<close>

text \<open>
  Predicates used to state the properties of the normalizer. A kept path component is
  non-empty, has no slash and is neither \<open>.\<close> nor \<open>..\<close>; a canonical path is a slash
  followed by kept components, each closed by a slash, and possibly one more kept
  component without a closing slash.
\<close>

definition good_seg :: "string \<Rightarrow> bool" where
  "good_seg s \<longleftrightarrow> s \<noteq> [] \<and> CHR ''/'' \<notin> set s \<and> s \<noteq> ''.'' \<and> s \<noteq> ''..''"

definition dirs :: "string list \<Rightarrow> string" where
  "dirs ss = concat (map (\<lambda>s. s @ ''/'') ss)"

definition root_dirs :: "string list \<Rightarrow> string" where
  "root_dirs ss = CHR ''/'' # dirs ss"

definition canonical :: "string \<Rightarrow> bool" where
  "canonical path \<longleftrightarrow>
     (\<exists>ss t. list_all good_seg ss \<and> (t = [] \<or> good_seg t) \<and> path = root_dirs ss @ t)"

section \<open>Header lines, as the field loop reads them\<close>

text \<open>
  Used to state what the field loop stores. \<open>header_lines\<close> joins lines, each closed by
  CR LF. \<open>line_value i l\<close> is the value of field \<open>i\<close> in a line that begins with its name:
  what follows the name, one more character and the spaces after it. \<open>store_line\<close> puts
  the value of a line that begins with a recognized name into its slot and leaves the
  slots alone for any other line. \<open>line_ok\<close> holds for a line without CR LF inside that,
  when it begins with a recognized name, has a colon right after the name and a value
  shorter than the field buffer.
\<close>

definition header_lines :: "string list \<Rightarrow> string" where
  "header_lines ls = concat (map (\<lambda>l. l @ crlf) ls)"

definition line_value :: "req_field \<Rightarrow> string \<Rightarrow> string" where
  "line_value i l = dropWhile (\<lambda>c. c = CHR '' '') (drop (length (req_field_str i) + 1) l)"

definition store_line :: "(req_field \<Rightarrow> string) \<Rightarrow> string \<Rightarrow> (req_field \<Rightarrow> string)" where
  "store_line f l = (case match_field l of None \<Rightarrow> f | Some i \<Rightarrow> f(i := line_value i l))"

definition line_ok :: "nat \<Rightarrow> string \<Rightarrow> bool" where
  "line_ok fmax l \<longleftrightarrow>
     strstr l crlf = None \<and>
     (case match_field l of
        None \<Rightarrow> True
      | Some i \<Rightarrow> cget l (length (req_field_str i)) = CHR '':'' \<and> length (line_value i l) < fmax)"

section \<open>Paths as sequences of components\<close>

text \<open>
  Used to state containment. \<open>split_slash\<close> cuts a path at its slashes. A path is
  \<open>dot_free\<close> when no component is \<open>..\<close> and none begins with a dot; it is
  \<open>inside_root\<close> when walking its components from the root never steps above the root.
\<close>

fun split_slash :: "string \<Rightarrow> string list" where
  "split_slash [] = [[]]"
| "split_slash (c # cs) =
     (if c = CHR ''/'' then [] # split_slash cs
      else (c # hd (split_slash cs)) # tl (split_slash cs))"





section \<open>File system calls of a response\<close>






section \<open>Example configuration and worlds\<close>

text \<open>
  A configuration with the usual bounds and index name, and a world with a given read
  script and write script, nothing sent yet and only NUL bytes behind the target; they
  serve as concrete inputs.
\<close>

definition example_cfg :: config where
  "example_cfg =
     \<lparr>HEADER_MAX = 4096, FIELD_MAX = 200, PATH_MAX = 4096, BUFSIZ = 8192,
      docindex = ''index.html'', listdirs = True,
      mimes = [(''html'', ''text/html''), (''txt'', ''text/plain'')]\<rparr>"

definition example_world :: "rd_event list \<Rightarrow> wr_event list \<Rightarrow> world" where
  "example_world rs ws =
     \<lparr>rd = rs, wr = ws, sent = [], now = ''Thu, 01 Jan 2026 00:00:00 GMT'',
      fslog = [], fopened = [], behind = []\<rparr>"

text \<open>
  A host with a small tree: the root directory with \<open>index.html\<close>, the file \<open>a.txt\<close> of ten
  bytes, the file \<open>big.bin\<close> of 1000 bytes and the directory \<open>dir\<close> without an index
  file. Its time strings are an at sign and the seconds.
\<close>

definition example_stat :: "string \<Rightarrow> errno + stat" where
  "example_stat p =
     (if p = ''/'' \<or> p = ''/dir/'' \<or> p = ''/dir''
        then Inr \<lparr>st_mode = F_DIR, st_size = 4096, st_mtime = 1000\<rparr>
      else if p = ''/index.html'' then Inr \<lparr>st_mode = F_REG, st_size = 9, st_mtime = 1000\<rparr>
      else if p = ''/a.txt'' then Inr \<lparr>st_mode = F_REG, st_size = 10, st_mtime = 1000\<rparr>
      else if p = ''/big.bin'' then Inr \<lparr>st_mode = F_REG, st_size = 1000, st_mtime = 1000\<rparr>
      else Inl ENOENT)"

definition example_fopen :: "string \<Rightarrow> string option" where
  "example_fopen p =
     (if p = ''/index.html'' then Some ''<p>hi</p>''
      else if p = ''/a.txt'' then Some ''0123456789''
      else if p = ''/big.bin'' then Some (replicate 1000 (CHR ''x''))
      else None)"

definition example_scandir :: "string \<Rightarrow> dirent list option" where
  "example_scandir p =
     (if p = ''/dir/'' then Some [\<lparr>d_name = ''..'', d_type = DT_DIR\<rparr>, \<lparr>d_name = ''f'', d_type = DT_REG\<rparr>]
      else None)"

definition example_fmt_time :: "int \<Rightarrow> string" where
  "example_fmt_time t = CHR ''@'' # dec (nat t)"

definition example_parse_time :: "string \<Rightarrow> int option" where
  "example_parse_time s = (if cget s 0 = CHR ''@'' then Some (atoi (drop 1 s)) else None)"

definition example_host :: host where
  "example_host =
     \<lparr>fs_stat = example_stat, fs_fopen = example_fopen, fs_scandir = example_scandir,
      fmt_time = example_fmt_time, parse_time = example_parse_time\<rparr>"

definition example_request :: "req_method \<Rightarrow> string \<Rightarrow> string \<Rightarrow> string \<Rightarrow> request" where
  "example_request m t rng ims =
     \<lparr>method = m, target = t, field = empty_fields(REQ_RANGE := rng, REQ_MOD := ims)\<rparr>"

section \<open>Properties of the path normalizer\<close>

lemma dirs_simps [simp]:
  "dirs [] = []" "dirs (s # ss) = s @ CHR ''/'' # dirs ss" "dirs (ss @ ts) = dirs ss @ dirs ts"
  by (simp_all add: dirs_def)

lemma takeWhile_not_mem:
  "c \<notin> set seg \<Longrightarrow> takeWhile (\<lambda>x. x \<noteq> c) (seg @ r) = seg @ takeWhile (\<lambda>x. x \<noteq> c) r"
  by (induction seg) auto

lemma seg_end_last:
  "CHR ''/'' \<notin> set seg \<Longrightarrow> seg_end (pre @ seg) (length pre) = length pre + length seg"
  using takeWhile_not_mem [of "CHR ''/''" seg "[]"] by (simp add: seg_end_def del: takeWhile_eq_all_conv)

lemma seg_end_more:
  "CHR ''/'' \<notin> set seg \<Longrightarrow>
   seg_end (pre @ seg @ CHR ''/'' # rest) (length pre) = length pre + length seg"
  by (simp add: seg_end_def takeWhile_not_mem)

lemma is_dot:
  "(length seg = 1 \<and> cget (pre @ seg @ x) (length pre) = CHR ''.'') \<longleftrightarrow> seg = ''.''"
  by (cases seg) (auto simp: cget_def nth_append)

lemma is_dotdot:
  "(length seg = 2 \<and> cget (pre @ seg @ x) (length pre) = CHR ''.'' \<and>
    cget (pre @ seg @ x) (length pre + 1) = CHR ''.'') \<longleftrightarrow> seg = ''..''"
proof (cases seg)
  case Nil
  then show ?thesis by simp
next
  case (Cons a as)
  then show ?thesis by (cases as) (auto simp: cget_def nth_append)
qed

lemma normloop_last:
  assumes "CHR ''/'' \<notin> set seg"
  shows "normloop (pre @ seg) (length pre) =
     (if seg = [] \<or> seg = ''.'' then pre
      else if seg = ''..'' then take (backup (pre @ seg) (length pre)) (pre @ seg)
      else pre @ seg)"
proof -
  have q: "seg_end (pre @ seg) (length pre) = length pre + length seg"
    using assms by (rule seg_end_last)
  have d1: "(length seg = 1 \<and> cget (pre @ seg) (length pre) = CHR ''.'') \<longleftrightarrow> seg = ''.''"
    using is_dot [of seg pre "[]"] by simp
  have d2: "(length seg = 2 \<and> cget (pre @ seg) (length pre) = CHR ''.'' \<and>
    cget (pre @ seg) (length pre + 1) = CHR ''.'') \<longleftrightarrow> seg = ''..''"
    using is_dotdot [of seg pre "[]"] by simp
  show ?thesis
    apply (subst normloop.simps)
    apply (simp only: q Let_def)
    using d1 d2 apply (auto)
    done
qed

lemma normloop_more:
  assumes "CHR ''/'' \<notin> set seg"
  shows "normloop (pre @ seg @ CHR ''/'' # rest) (length pre) =
     (if seg = [] \<or> seg = ''.'' then normloop (pre @ rest) (length pre)
      else if seg = ''..'' then
        normloop (take (backup (pre @ seg @ CHR ''/'' # rest) (length pre))
                       (pre @ seg @ CHR ''/'' # rest) @ rest)
                 (backup (pre @ seg @ CHR ''/'' # rest) (length pre))
      else normloop ((pre @ seg @ ''/'') @ rest) (length (pre @ seg @ ''/'')))"
proof -
  have q: "seg_end (pre @ seg @ CHR ''/'' # rest) (length pre) = length pre + length seg"
    using assms by (rule seg_end_more)
  note d1 = is_dot [of seg pre "CHR ''/'' # rest"]
  note d2 = is_dotdot [of seg pre "CHR ''/'' # rest"]
  show ?thesis
    apply (subst normloop.simps)
    apply (simp only: q Let_def)
    using d1 d2 apply (auto)
    done
qed

lemma normloop_up:
  assumes "backup (pre @ ''../'' @ rest) (length pre) = length pre'"
    and "pre @ ''../'' @ rest = pre' @ y"
  shows "normloop (pre @ ''../'' @ rest) (length pre) = normloop (pre' @ rest) (length pre')"
proof -
  have "normloop (pre @ ''../'' @ rest) (length pre) =
        normloop (take (backup (pre @ ''../'' @ rest) (length pre)) (pre @ ''../'' @ rest) @ rest)
                 (backup (pre @ ''../'' @ rest) (length pre))"
    using normloop_more [of "''..''" pre rest] by simp
  also have "take (backup (pre @ ''../'' @ rest) (length pre)) (pre @ ''../'' @ rest) = pre'"
    unfolding assms(1) unfolding assms(2) by simp
  finally show ?thesis unfolding assms(1) .
qed

lemma normloop_up_last:
  assumes "backup (pre @ ''..'') (length pre) = length pre'"
    and "pre @ ''..'' = pre' @ y"
  shows "normloop (pre @ ''..'') (length pre) = pre'"
proof -
  have "normloop (pre @ ''..'') (length pre) =
        take (backup (pre @ ''..'') (length pre)) (pre @ ''..'')"
    using normloop_last [of "''..''" pre] by simp
  also have "\<dots> = pre'"
    unfolding assms(1) unfolding assms(2) by simp
  finally show ?thesis .
qed

lemma scan_back_seg:
  "CHR ''/'' \<notin> set s \<Longrightarrow>
   scan_back (pre1 @ CHR ''/'' # s @ x) (length pre1 + length s) = length pre1"
proof (induction s arbitrary: x rule: rev_induct)
  case Nil
  then show ?case by (cases pre1) (auto simp: cget_def nth_append)
next
  case (snoc c s)
  have "cget (pre1 @ CHR ''/'' # (s @ [c]) @ x) (Suc (length pre1 + length s)) = c"
    by (simp add: cget_def nth_append)
  with snoc show ?case by auto
qed

lemma length_root_dirs_Nil [simp]: "root_dirs [] = ''/''"
  by (simp add: root_dirs_def)

lemma root_dirs_snoc: "root_dirs (ss @ [s]) = root_dirs ss @ s @ ''/''"
  by (simp add: root_dirs_def)

lemma root_dirs_ends: "\<exists>pre1. root_dirs ss = pre1 @ ''/''"
  by (induction ss rule: rev_induct) (auto simp: root_dirs_snoc)

lemma good_seg_no_slash: "good_seg s \<Longrightarrow> CHR ''/'' \<notin> set s"
  by (simp add: good_seg_def)

lemma backup_root_dirs:
  assumes "list_all good_seg ss"
  shows "\<exists>ss' y. list_all good_seg ss' \<and> root_dirs ss @ x = root_dirs ss' @ y \<and>
           backup (root_dirs ss @ x) (length (root_dirs ss)) = length (root_dirs ss')"
proof (cases ss rule: rev_cases)
  case Nil
  show ?thesis unfolding Nil by (intro exI [of _ "[]"] exI [of _ x]) (simp add: backup_def)
next
  case (snoc ss0 s)
  then have g: "CHR ''/'' \<notin> set s" "list_all good_seg ss0"
    using assms by (simp_all add: good_seg_no_slash)
  obtain pre1 where p1: "root_dirs ss0 = pre1 @ ''/''"
    using root_dirs_ends by blast
  have e: "root_dirs ss @ x = pre1 @ CHR ''/'' # s @ (CHR ''/'' # x)"
    unfolding snoc root_dirs_snoc p1 by simp
  have l: "length (root_dirs ss) = length pre1 + length s + 2"
    unfolding snoc root_dirs_snoc p1 by simp
  have "backup (root_dirs ss @ x) (length (root_dirs ss)) = length (root_dirs ss0)"
    unfolding e l by (simp add: backup_def scan_back_seg [OF g(1)] p1)
  moreover have "root_dirs ss @ x = root_dirs ss0 @ (s @ CHR ''/'' # x)"
    unfolding snoc root_dirs_snoc by simp
  ultimately show ?thesis using g(2) by blast
qed

lemma normloop_fix:
  assumes "list_all good_seg ss" and "t = [] \<or> good_seg t"
  shows "normloop (pre @ dirs ss @ t) (length pre) = pre @ dirs ss @ t"
  using assms(1)
proof (induction ss arbitrary: pre)
  case Nil
  have "CHR ''/'' \<notin> set t" using assms(2) by (auto simp: good_seg_def)
  from normloop_last [OF this, of pre] assms(2) show ?case
    by (auto simp: good_seg_def)
next
  case (Cons s ss)
  then have g: "good_seg s" and gs: "list_all good_seg ss" by simp_all
  have "normloop (pre @ s @ CHR ''/'' # (dirs ss @ t)) (length pre) =
        normloop ((pre @ s @ ''/'') @ dirs ss @ t) (length (pre @ s @ ''/''))"
    using normloop_more [OF good_seg_no_slash [OF g], of pre "dirs ss @ t"] g
    by (simp add: good_seg_def)
  also have "\<dots> = (pre @ s @ ''/'') @ dirs ss @ t"
    by (rule Cons.IH [OF gs])
  finally show ?case by simp
qed

lemma split_seg:
  obtains (last) seg where "rest = seg" "CHR ''/'' \<notin> set seg"
  | (more) seg r where "rest = seg @ CHR ''/'' # r" "CHR ''/'' \<notin> set seg"
proof (cases "dropWhile (\<lambda>c. c \<noteq> CHR ''/'') rest")
  case Nil
  then have "CHR ''/'' \<notin> set rest" by auto
  then show ?thesis using last by blast
next
  case (Cons c r)
  then have c: "c = CHR ''/''" using hd_dropWhile [of "\<lambda>c. c \<noteq> CHR ''/''" rest] by auto
  have "rest = takeWhile (\<lambda>c. c \<noteq> CHR ''/'') rest @ CHR ''/'' # r"
    using takeWhile_dropWhile_id [of "\<lambda>c. c \<noteq> CHR ''/''" rest] Cons c by simp
  moreover have "CHR ''/'' \<notin> set (takeWhile (\<lambda>c. c \<noteq> CHR ''/'') rest)"
    using set_takeWhileD by fastforce
  ultimately show ?thesis using more by blast
qed

lemma canonicalI:
  "list_all good_seg ss \<Longrightarrow> t = [] \<or> good_seg t \<Longrightarrow> canonical (root_dirs ss @ t)"
  unfolding canonical_def by blast

lemma seg_kinds:
  assumes "CHR ''/'' \<notin> set seg"
  obtains "seg = [] \<or> seg = ''.''" | "seg = ''..''" | "good_seg seg"
  using assms unfolding good_seg_def by blast

lemma normloop_canon:
  "list_all good_seg ss \<Longrightarrow>
   canonical (normloop (root_dirs ss @ rest) (length (root_dirs ss)))"
proof (induction "length rest" arbitrary: rest ss rule: less_induct)
  case less
  show ?case
  proof (cases rest rule: split_seg)
    case (last seg)
    note L = normloop_last [OF last(2), of "root_dirs ss"]
    from last(2) show ?thesis
    proof (cases seg rule: seg_kinds)
      case 1
      then show ?thesis using L canonicalI [OF less.prems, of "[]"] last(1) by auto
    next
      case 2
      obtain ss' y where s': "list_all good_seg ss'" and e: "root_dirs ss @ ''..'' = root_dirs ss' @ y"
        and b: "backup (root_dirs ss @ ''..'') (length (root_dirs ss)) = length (root_dirs ss')"
        using backup_root_dirs [OF less.prems, of "''..''"] by blast
      show ?thesis
        unfolding last(1) 2 normloop_up_last [OF b e]
        using canonicalI [OF s', of "[]"] by simp
    next
      case 3
      then have "seg \<noteq> []" "seg \<noteq> ''.''" "seg \<noteq> ''..''" by (auto simp: good_seg_def)
      then show ?thesis using L canonicalI [OF less.prems, of seg] 3 last(1) by simp
    qed
  next
    case (more seg r)
    note M = normloop_more [OF more(2), of "root_dirs ss" r]
    have lr: "length r < length rest" using more(1) by simp
    from more(2) show ?thesis
    proof (cases seg rule: seg_kinds)
      case 1
      then show ?thesis using M less.hyps [OF lr less.prems] more(1) by auto
    next
      case 2
      obtain ss' y where s': "list_all good_seg ss'"
        and e: "root_dirs ss @ ''../'' @ r = root_dirs ss' @ y"
        and b: "backup (root_dirs ss @ ''../'' @ r) (length (root_dirs ss)) =
           length (root_dirs ss')"
        using backup_root_dirs [OF less.prems, of "''../'' @ r"] by blast
      have rest: "rest = ''../'' @ r" using more(1) 2 by simp
      show ?thesis
        unfolding rest normloop_up [OF b e] by (rule less.hyps [OF lr s'])
    next
      case 3
      then have n: "seg \<noteq> []" "seg \<noteq> ''.''" "seg \<noteq> ''..''" by (auto simp: good_seg_def)
      have g: "list_all good_seg (ss @ [seg])" using less.prems 3 by simp
      show ?thesis using M n less.hyps [OF lr g] more(1) by (simp add: root_dirs_snoc)
    qed
  qed
qed

lemma normabspath_canonical: "normabspath p = Some n \<Longrightarrow> canonical n"
proof -
  assume a: "normabspath p = Some n"
  then have "cget p 0 = CHR ''/''" by (auto simp: normabspath_def split: if_splits)
  then obtain rest where p: "p = CHR ''/'' # rest" by (cases p) (auto simp: cget_def NUL_def)
  have "canonical (normloop (root_dirs [] @ rest) (length (root_dirs [])))"
    by (rule normloop_canon) simp
  then show ?thesis using a p by (simp add: normabspath_def cget_def)
qed

lemma normabspath_fix: "canonical n \<Longrightarrow> normabspath n = Some n"
proof -
  assume "canonical n"
  then obtain ss t where g: "list_all good_seg ss" "t = [] \<or> good_seg t"
    and n: "n = root_dirs ss @ t" unfolding canonical_def by blast
  have "normloop (''/'' @ dirs ss @ t) (length ''/'') = ''/'' @ dirs ss @ t"
    by (rule normloop_fix [OF g])
  then show ?thesis unfolding n by (simp add: normabspath_def cget_def root_dirs_def)
qed

text \<open>
  Claim C10 (path normalizer idempotence): whenever \<open>normabspath\<close> succeeds on a string,
  running it again on its result succeeds too and returns that result unchanged.
\<close>

theorem normabspath_idempotent:
  assumes "normabspath p = Some n"
  shows "normabspath n = Some n"
  using normabspath_fix [OF normabspath_canonical [OF assms]] .

theorem normabspath_idempotent_witness:
  "normabspath ''/a/./b//../c/'' = Some ''/a/c/'' \<and> normabspath ''/a/c/'' = Some ''/a/c/''"
proof -
  have h: "normabspath ''/a/./b//../c/'' = Some ''/a/c/''" by code_simp
  from h normabspath_idempotent [OF h] show ?thesis by simp
qed

section \<open>Properties of the string helpers\<close>


lemma strstr_None_iff: "strstr s n = None \<longleftrightarrow> \<not> sublist n s"
  by (induction s) (auto simp: sublist_Cons_right)

lemma strstr_take_None:
  "n \<noteq> [] \<Longrightarrow> strstr s n = Some q \<Longrightarrow> strstr (take q s) n = None"
proof (induction s arbitrary: q)
  case Nil
  then show ?case by (simp split: if_splits)
next
  case (Cons c cs)
  show ?case
  proof (cases "prefix n (c # cs)")
    case True
    then show ?thesis using Cons.prems by simp
  next
    case False
    then obtain q' where q: "strstr cs n = Some q'" "q = Suc q'"
      using Cons.prems by auto
    have "\<not> prefix n (c # take q' cs)"
      using False take_is_prefix [of q' cs] prefix_order.trans [of n "c # take q' cs" "c # cs"]
      by auto
    then show ?thesis using Cons.IH [OF Cons.prems(1) q(1)] q(2) by simp
  qed
qed

lemma strstr_bound: "strstr s n = Some q \<Longrightarrow> q + length n \<le> length s"
proof (induction s arbitrary: q)
  case Nil
  then show ?case by (simp split: if_splits)
next
  case (Cons c cs)
  then show ?case by (auto split: if_splits dest: prefix_length_le)
qed

lemma strstr_crlf_first:
  "strstr line crlf = None \<Longrightarrow> strstr (line @ crlf @ rest) crlf = Some (length line)"
proof (induction line)
  case Nil
  then show ?case by (simp add: crlf_def)
next
  case (Cons c cs)
  then have np: "\<not> prefix crlf (c # cs)" and n: "strstr cs crlf = None"
    by (auto split: if_splits)
  have "\<not> prefix crlf (c # cs @ crlf @ rest)"
    using np by (cases cs) (auto simp: crlf_def)
  then show ?case using Cons.IH [OF n] by simp
qed

lemma strstr_suffix_None: "strstr (xs @ ys) n = None \<Longrightarrow> strstr ys n = None"
  unfolding strstr_None_iff by (meson sublist_append)

lemma strstr_prefix_None: "strstr (xs @ ys) n = None \<Longrightarrow> strstr xs n = None"
  unfolding strstr_None_iff by (meson sublist_append)

lemma strstr_dropWhile_None: "strstr v n = None \<Longrightarrow> strstr (dropWhile P v) n = None"
  using strstr_suffix_None [of "takeWhile P v" "dropWhile P v" n] by simp

section \<open>Properties of the request parser\<close>

lemma CR_notin_field_str: "CHR 0x0D \<notin> set (req_field_str i)"
  by (cases i) simp_all

lemma prefix_field_str_app:
  "prefix (req_field_str i) (l @ crlf @ rest) \<longleftrightarrow> prefix (req_field_str i) l"
proof
  assume "prefix (req_field_str i) (l @ crlf @ rest)"
  then consider "prefix (req_field_str i) l"
    | us where "req_field_str i = l @ us" "us \<noteq> []" "prefix us (crlf @ rest)"
    unfolding prefix_append by (metis append_Nil2 prefix_order.refl)
  then show "prefix (req_field_str i) l"
  proof cases
    case 1
    then show ?thesis .
  next
    case 2
    then obtain u us' where "us = u # us'" by (cases us) auto
    with 2 have "u = CHR 0x0D" by (simp add: crlf_def)
    with \<open>us = u # us'\<close> 2(1) have "CHR 0x0D \<in> set (req_field_str i)"
      by (metis in_set_conv_decomp)
    then show ?thesis using CR_notin_field_str by blast
  qed
next
  assume "prefix (req_field_str i) l"
  then show "prefix (req_field_str i) (l @ crlf @ rest)" by (rule prefix_prefix)
qed

lemma match_field_app: "match_field (l @ crlf @ rest) = match_field l"
  unfolding match_field_def prefix_field_str_app ..

lemma match_field_length: "match_field l = Some i \<Longrightarrow> length (req_field_str i) \<le> length l"
  by (auto simp: match_field_def split: if_splits dest: prefix_length_le)

lemma parse_fields_skip:
  assumes "match_field l = None" and "strstr l crlf = None"
  shows "parse_fields fmax (l @ crlf @ rest) f = parse_fields fmax rest f"
proof -
  have ne: "l @ crlf @ rest \<noteq> []" by (simp add: crlf_def)
  have m: "match_field (l @ crlf @ rest) = None" using assms(1) by (simp add: match_field_app)
  have dr: "drop (length l + 2) (l @ crlf @ rest) = rest" by (simp add: crlf_def)
  show ?thesis
    by (subst parse_fields.simps)
      (simp only: ne m strstr_crlf_first [OF assms(2)] dr option.case if_False)
qed

lemma parse_fields_store:
  assumes "match_field l = Some i" and "strstr l crlf = None"
    and "cget l (length (req_field_str i)) = CHR '':''"
    and "length (line_value i l) < fmax"
  shows "parse_fields fmax (l @ crlf @ rest) f = parse_fields fmax rest (f(i := line_value i l))"
proof -
  let ?n = "length (req_field_str i)"
  have ne: "l @ crlf @ rest \<noteq> []" by (simp add: crlf_def)
  have m: "match_field (l @ crlf @ rest) = Some i" using assms(1) by (simp add: match_field_app)
  have len: "?n < length l" using assms(3) by (auto simp: cget_def NUL_def split: if_splits)
  then have c: "cget (l @ crlf @ rest) ?n = CHR '':''"
    using assms(3) by (simp add: cget_def nth_append)
  have d: "drop (?n + 1) (l @ crlf @ rest) = drop (?n + 1) l @ crlf @ rest"
    using len by simp
  have dw: "dropWhile (\<lambda>c. c = CHR '' '') (drop (?n + 1) l @ crlf @ rest) =
            line_value i l @ crlf @ rest"
    unfolding line_value_def by (simp add: crlf_def dropWhile_append3)
  have "strstr (drop (?n + 1) l) crlf = None"
    using strstr_suffix_None [of "take (?n + 1) l" "drop (?n + 1) l" crlf] assms(2) by simp
  then have n: "strstr (line_value i l) crlf = None"
    unfolding line_value_def by (rule strstr_dropWhile_None)
  have dr: "drop (length (line_value i l) + 2) (line_value i l @ crlf @ rest) = rest"
    by (simp add: crlf_def)
  show ?thesis
    apply (subst parse_fields.simps)
    apply (simp only: ne m c d dw strstr_crlf_first [OF n] dr option.case if_False if_True
        simp_thms)
    using assms(4) apply (simp)
    done
qed

lemma parse_fields_lines:
  assumes "\<forall>l \<in> set ls. line_ok fmax l"
  shows "parse_fields fmax (header_lines ls) f = Inr (foldl store_line f ls)"
  using assms
proof (induction ls arbitrary: f)
  case Nil
  then show ?case by (simp add: parse_fields.simps header_lines_def)
next
  case (Cons l ls)
  then have ok: "line_ok fmax l" and rest: "\<forall>l \<in> set ls. line_ok fmax l" by simp_all
  have c: "header_lines (l # ls) = l @ crlf @ header_lines ls"
    by (simp add: header_lines_def)
  show ?case
  proof (cases "match_field l")
    case None
    then have "strstr l crlf = None" "store_line f l = f"
      using ok by (simp_all add: line_ok_def store_line_def)
    then show ?thesis
      unfolding c using parse_fields_skip [OF None] Cons.IH [OF rest, of f] by simp
  next
    case (Some i)
    then have h: "strstr l crlf = None" "cget l (length (req_field_str i)) = CHR '':''"
      "length (line_value i l) < fmax" and s: "store_line f l = f(i := line_value i l)"
      using ok by (simp_all add: line_ok_def store_line_def)
    show ?thesis
      unfolding c parse_fields_store [OF Some h] foldl_Cons s
      by (rule Cons.IH [OF rest])
  qed
qed

lemma parse_fields_no_colon:
  assumes "match_field p = Some i" and "cget p (length (req_field_str i)) \<noteq> CHR '':''"
  shows "parse_fields fmax p f = Inl S_BAD_REQUEST"
proof -
  have "p \<noteq> []" using assms(1) by (cases i) (auto simp: match_field_def split: if_splits)
  then show ?thesis using assms by (subst parse_fields.simps) simp
qed

lemma parse_fields_inv:
  assumes "parse_fields fmax p f = Inr f'" and "\<forall>i. strstr (f i) crlf = None \<and> length (f i) < max 1 fmax"
  shows "\<forall>i. strstr (f' i) crlf = None \<and> length (f' i) < max 1 fmax"
  using assms
proof (induction fmax p f rule: parse_fields.induct)
  case (1 fmax p f)
  show ?case
  proof (cases "p = []")
    case True
    then show ?thesis using "1.prems" by (simp add: parse_fields.simps)
  next
    case ne: False
    show ?thesis
    proof (cases "match_field p")
      case None
      then obtain q where q: "strstr p crlf = Some q"
        and r: "parse_fields fmax (drop (q + 2) p) f = Inr f'"
        using "1.prems"(1) ne by (subst (asm) parse_fields.simps) (auto split: option.splits)
      show ?thesis by (rule "1.IH"(1) [OF ne None q r "1.prems"(2)])
    next
      case (Some i)
      let ?p2 = "dropWhile (\<lambda>c. c = CHR '' '') (drop (length (req_field_str i) + 1) p)"
      from "1.prems"(1) ne Some
      have c: "\<not> cget p (length (req_field_str i)) \<noteq> CHR '':''"
        by (subst (asm) parse_fields.simps) (auto split: if_splits)
      from "1.prems"(1) ne Some c obtain q where q: "strstr ?p2 crlf = Some q"
        and b: "\<not> q + 1 > fmax"
        and r: "parse_fields fmax (drop (q + 2) ?p2) (f(i := take q ?p2)) = Inr f'"
        by (subst (asm) parse_fields.simps) (auto split: option.splits if_splits)
      have "strstr (take q ?p2) crlf = None"
        using strstr_take_None [OF _ q] by (simp add: crlf_def)
      moreover have "length (take q ?p2) < max 1 fmax" using b by simp
      ultimately have inv: "\<forall>j. strstr ((f(i := take q ?p2)) j) crlf = None \<and>
          length ((f(i := take q ?p2)) j) < max 1 fmax"
        using "1.prems"(2) by simp
      show ?thesis by (rule "1.IH"(2) [OF ne Some c q b r inv])
    qed
  qed
qed


lemma header_end_sublist: "header_end x \<Longrightarrow> sublist (crlf @ crlf) x"
proof -
  assume "header_end x"
  then have "x = take (length x - 4) x @ (crlf @ crlf) @ []"
    unfolding header_end_def by (metis append_Nil2 append_take_drop_id)
  then show ?thesis unfolding sublist_def by blast
qed

lemma recv_header_incomplete:
  assumes "\<forall>d \<in> set ds. d \<noteq> []" and "strstr (h @ concat ds) (crlf @ crlf) = None"
    and "length (h @ concat ds) < hmax"
  shows "recv_header hmax (map RdData ds @ evs) h = recv_header hmax evs (h @ concat ds)"
  using assms
proof (induction ds arbitrary: h)
  case Nil
  then show ?case by simp
next
  case (Cons d ds)
  have d: "d \<noteq> []" using Cons.prems(1) by simp
  have room: "length d \<le> hmax - length h" "length (h @ d) \<noteq> hmax"
    using Cons.prems(3) by simp_all
  have "strstr ((h @ d) @ concat ds) (crlf @ crlf) = None" using Cons.prems(2) by simp
  then have "strstr (h @ d) (crlf @ crlf) = None" by (rule strstr_prefix_None)
  then have ne: "\<not> header_end (h @ d)"
    using header_end_sublist strstr_None_iff by blast
  have "recv_header hmax (map RdData (d # ds) @ evs) h =
        recv_header hmax (map RdData ds @ evs) (h @ d)"
    using d room ne by (simp add: Let_def)
  also have "\<dots> = recv_header hmax evs ((h @ d) @ concat ds)"
    using Cons.prems by (intro Cons.IH) simp_all
  finally show ?case by simp
qed

lemma sendstatus_timeout: "fst (sendstatus w S_REQUEST_TIMEOUT) = S_REQUEST_TIMEOUT"
  by (simp add: sendstatus_def split: prod.splits bool.splits)

lemma parse_fields_status:
  assumes "parse_fields fmax p f = Inl s"
  shows "s = S_BAD_REQUEST \<or> s = S_REQUEST_TOO_LARGE"
  using assms
proof (induction fmax p f rule: parse_fields.induct)
  case (1 fmax p f)
  note st = parse_fields.simps [of fmax p f]
  show ?case
  proof (cases "p = []")
    case True
    then show ?thesis using "1.prems" st by simp
  next
    case ne: False
    show ?thesis
    proof (cases "match_field p")
      case None
      show ?thesis
      proof (cases "strstr p crlf")
        case n: None
        then show ?thesis using "1.prems" st ne None by simp
      next
        case (Some q)
        then have "parse_fields fmax (drop (q + 2) p) f = Inl s"
          using "1.prems" st ne None by simp
        then show ?thesis by (rule "1.IH"(1) [OF ne None Some])
      qed
    next
      case (Some i)
      let ?p2 = "dropWhile (\<lambda>c. c = CHR '' '') (drop (length (req_field_str i) + 1) p)"
      show ?thesis
      proof (cases "cget p (length (req_field_str i)) \<noteq> CHR '':''")
        case True
        then show ?thesis using "1.prems" st ne Some by simp
      next
        case c: False
        show ?thesis
        proof (cases "strstr ?p2 crlf")
          case None
          then show ?thesis using "1.prems" st ne Some c by simp
        next
          case q: (Some q)
          show ?thesis
          proof (cases "q + 1 > fmax")
            case True
            then show ?thesis using "1.prems" st ne Some c q by simp
          next
            case b: False
            then have "parse_fields fmax (drop (q + 2) ?p2) (f(i := take q ?p2)) = Inl s"
              using "1.prems" st ne Some c q by simp
            then show ?thesis by (rule "1.IH"(2) [OF ne Some c q b])
          qed
        qed
      qed
    qed
  qed
qed

lemma parse_header_status:
  assumes "parse_header cfg mem h = Failed s"
  shows "s \<noteq> S_REQUEST_TIMEOUT"
proof
  assume t: "s = S_REQUEST_TIMEOUT"
  have nf: "parse_fields fmax p f \<noteq> Inl S_REQUEST_TIMEOUT" for fmax p f
    using parse_fields_status [of fmax p f S_REQUEST_TIMEOUT] by auto
  from assms t nf show False
    unfolding parse_header_def
    by (auto simp: Let_def split: option.splits if_splits sum.splits)
qed

lemma reply_accepted:
  assumes "\<forall>es. wr w \<noteq> WrFail # es"
  shows "fst (reply s w) = Failed s"
  using assms
  by (auto simp: reply_def sendstatus_def dprintf_def split: list.splits wr_event.splits)

lemma parse_received_not_timeout:
  assumes "\<forall>es. wr w \<noteq> WrFail # es"
  shows "fst (parse_received cfg h w) \<noteq> Failed S_REQUEST_TIMEOUT"
proof (cases "length h < 2")
  case True
  then show ?thesis using reply_accepted [OF assms, of S_BAD_REQUEST]
    by (simp add: parse_received_def)
next
  case False
  show ?thesis
  proof (cases "parse_header cfg (behind w) (cstr (take (length h - 2) h))")
    case (Failed s)
    then show ?thesis
      using False reply_accepted [OF assms, of s] parse_header_status [OF Failed]
      by (simp add: parse_received_def)
  next
    case (Parsed r)
    then show ?thesis using False by (simp add: parse_received_def)
  qed
qed

lemma parse_header_Parsed:
  assumes "parse_header cfg mem h = Parsed r"
  shows "\<exists>p. parse_fields (FIELD_MAX cfg) p empty_fields = Inr (field r)"
proof -
  from assms obtain m where m: "match_method h = Some m"
    by (auto simp: parse_header_def split: option.splits)
  let ?p = "drop (length (req_method_str m) + 1) h"
  from assms m obtain q where q: "strchr ?p (CHR '' '') = Some q" and b: "\<not> q + 1 > PATH_MAX cfg"
    by (auto simp: parse_header_def Let_def split: option.splits if_splits)
  from assms m q b obtain f where
    f: "parse_fields (FIELD_MAX cfg) (drop 10 (drop (q + 1) ?p)) empty_fields = Inr f"
    and r: "field r = f"
    by (auto simp: parse_header_def Let_def split: option.splits if_splits sum.splits)
  then show ?thesis by blast
qed

lemma getrequest_Parsed:
  assumes "getrequest cfg w = (Parsed r, w')"
  shows "\<exists>mem h. parse_header cfg mem h = Parsed r"
proof -
  obtain res evs where rh: "recv_header (HEADER_MAX cfg) (rd w) [] = (res, evs)"
    by (cases "recv_header (HEADER_MAX cfg) (rd w) []")
  have nr: "reply s u \<noteq> (Parsed r, w')" for s u
    by (cases "sendstatus u s") (simp add: reply_def)
  show ?thesis
  proof (cases res)
    case (Inl s)
    then show ?thesis using assms rh nr by (simp add: getrequest_def)
  next
    case (Inr h)
    then have pr: "parse_received cfg h (w\<lparr>rd := evs\<rparr>) = (Parsed r, w')"
      using assms rh by (simp add: getrequest_def)
    show ?thesis
    proof (cases "length h < 2")
      case True
      then show ?thesis using pr nr by (simp add: parse_received_def)
    next
      case False
      then show ?thesis using pr nr
        by (cases "parse_header cfg (behind w) (cstr (take (length h - 2) h))")
          (auto simp: parse_received_def)
    qed
  qed
qed


lemma char_of_4: "char_of (4 :: nat) = CHR 0x04"
  by code_simp

lemmas eval_getrequest = getrequest_def example_cfg_def example_world_def crlf_def nl_def
  header_end_def parse_received_def parse_header_def stored_target_def cstr_def NUL_def
  match_method_def cget_def strchr_def parse_fields.simps match_field_def reply_def sendstatus_def dprintf_def
  sscanf_2hhx_def isspace_def hexval_def

text \<open>
  Claim C5, amended. Let the peer send the non-empty chunks \<open>ds\<close>, which together hold no
  header terminator CR LF CR LF and do not fill the header buffer. If the next read fails,
  \<open>getrequest\<close> answers with \<open>sendstatus(fd, S_REQUEST_TIMEOUT)\<close> and returns 408 without
  a request value. If instead the peer closes the stream, \<open>getrequest\<close> does not take
  this for a timeout: unless the write of its answer fails, the status it returns is not
  408.
\<close>

theorem getrequest_stream_cut:
  assumes "[] \<notin> set ds" and "strstr (concat ds) (crlf @ crlf) = None"
    and "length (concat ds) < HEADER_MAX cfg"
  shows "getrequest cfg (w\<lparr>rd := map RdData ds @ RdErr # evs\<rparr>) =
           reply S_REQUEST_TIMEOUT (w\<lparr>rd := evs\<rparr>) \<and>
         fst (reply S_REQUEST_TIMEOUT (w\<lparr>rd := evs\<rparr>)) = Failed S_REQUEST_TIMEOUT \<and>
         ((\<forall>es. wr w \<noteq> WrFail # es) \<longrightarrow>
            fst (getrequest cfg (w\<lparr>rd := map RdData ds @ RdEOF # evs\<rparr>)) \<noteq>
              Failed S_REQUEST_TIMEOUT)"
proof -
  have r: "recv_header (HEADER_MAX cfg) (map RdData ds @ es) [] =
           recv_header (HEADER_MAX cfg) es (concat ds)" for es
    using recv_header_incomplete [of ds "[]" "HEADER_MAX cfg" es] assms by auto
  have "fst (reply S_REQUEST_TIMEOUT (w\<lparr>rd := evs\<rparr>)) = Failed S_REQUEST_TIMEOUT"
    using sendstatus_timeout [of "w\<lparr>rd := evs\<rparr>"]
    by (cases "sendstatus (w\<lparr>rd := evs\<rparr>) S_REQUEST_TIMEOUT") (simp add: reply_def)
  moreover have "fst (parse_received cfg (concat ds) (w\<lparr>rd := evs\<rparr>)) \<noteq>
      Failed S_REQUEST_TIMEOUT" if "\<forall>es. wr w \<noteq> WrFail # es"
    using parse_received_not_timeout [of "w\<lparr>rd := evs\<rparr>" cfg "concat ds"] that by simp
  ultimately show ?thesis by (simp add: getrequest_def r)
qed

theorem getrequest_stream_cut_witness:
  "[] \<notin> set [''GET / HTTP/1.1'' @ crlf, ''xx''] \<and>
   strstr (concat [''GET / HTTP/1.1'' @ crlf, ''xx'']) (crlf @ crlf) = None \<and>
   length (concat [''GET / HTTP/1.1'' @ crlf, ''xx'']) < HEADER_MAX example_cfg \<and>
   wr (example_world [] []) = [] \<and>
   fst (getrequest example_cfg
          ((example_world [] [])\<lparr>rd := map RdData [''GET / HTTP/1.1'' @ crlf, ''xx''] @ RdErr # []\<rparr>)) =
     Failed S_REQUEST_TIMEOUT \<and>
   fst (getrequest example_cfg
          ((example_world [] [])\<lparr>rd := map RdData [''GET / HTTP/1.1'' @ crlf, ''xx''] @ RdEOF # []\<rparr>)) \<noteq>
     Failed S_REQUEST_TIMEOUT"
proof -
  have h1: "[] \<notin> set [''GET / HTTP/1.1'' @ crlf, ''xx'']" by (simp add: crlf_def)
  have h2: "strstr (concat [''GET / HTTP/1.1'' @ crlf, ''xx'']) (crlf @ crlf) = None"
    by (simp add: crlf_def)
  have h3: "length (concat [''GET / HTTP/1.1'' @ crlf, ''xx'']) < HEADER_MAX example_cfg"
    by (simp add: crlf_def example_cfg_def)
  have h4: "wr (example_world [] []) = []" by (simp add: example_world_def)
  from getrequest_stream_cut [OF h1 h2 h3, where w = "example_world [] []" and evs = "[]"]
    h1 h2 h3 h4
  show ?thesis by simp
qed

text \<open>
  Claim C5 as stated fails: the peer sends nothing, or a request line and two more bytes
  without a header terminator, and closes the stream. \<open>getrequest\<close> answers the first
  with 400 and returns a request for the second; it sends no 408 answer.
\<close>

theorem getrequest_eof_counterexample:
  "fst (getrequest example_cfg (example_world [RdEOF] [])) = Failed S_BAD_REQUEST \<and>
   strstr (''GET / HTTP/1.1'' @ crlf @ ''xx'') (crlf @ crlf) = None \<and>
   getrequest example_cfg
     (example_world [RdData (''GET / HTTP/1.1'' @ crlf @ ''xx''), RdEOF] []) =
   (Parsed \<lparr>method = M_GET, target = ''/'', field = empty_fields\<rparr>, example_world [] [])"
  by (simp add: eval_getrequest)

text \<open>
  Claim C6, amended. In every successfully parsed request each stored field value holds no
  CR LF pair and is shorter than the field buffer. (The target can be empty, and a field
  value can hold a lone CR or LF: see the counterexample.)
\<close>

theorem getrequest_parsed_invariant:
  assumes "getrequest cfg w = (Parsed r, w')"
  shows "strstr (field r i) crlf = None \<and> length (field r i) < max 1 (FIELD_MAX cfg)"
proof -
  obtain mem h where "parse_header cfg mem h = Parsed r"
    using getrequest_Parsed [OF assms] by blast
  then obtain p where p: "parse_fields (FIELD_MAX cfg) p empty_fields = Inr (field r)"
    using parse_header_Parsed by blast
  have "\<forall>i. strstr (empty_fields i) crlf = None \<and> length (empty_fields i) < max 1 (FIELD_MAX cfg)"
    by (simp add: empty_fields_def crlf_def)
  from parse_fields_inv [OF p this] show ?thesis by simp
qed

theorem getrequest_parsed_invariant_witness:
  "getrequest example_cfg
     ((example_world [RdData (''GET /%4 HTTP/1.1'' @ crlf @ ''Range: bytes=0-1'' @ crlf @ crlf)] [])
        \<lparr>behind := [''xy'']\<rparr>) =
   (Parsed \<lparr>method = M_GET, target = [CHR ''/'', CHR 0x04, CHR ''x'', CHR ''y''],
            field = empty_fields(REQ_RANGE := ''bytes=0-1'')\<rparr>,
    (example_world [] [])\<lparr>behind := [''xy'']\<rparr>) \<and>
   strstr ''bytes=0-1'' crlf = None \<and> length ''bytes=0-1'' < max 1 (FIELD_MAX example_cfg)"
proof -
  have h: "getrequest example_cfg
     ((example_world [RdData (''GET /%4 HTTP/1.1'' @ crlf @ ''Range: bytes=0-1'' @ crlf @ crlf)] [])
        \<lparr>behind := [''xy'']\<rparr>) =
   (Parsed \<lparr>method = M_GET, target = [CHR ''/'', CHR 0x04, CHR ''x'', CHR ''y''],
            field = empty_fields(REQ_RANGE := ''bytes=0-1'')\<rparr>,
    (example_world [] [])\<lparr>behind := [''xy'']\<rparr>)"
    by (simp add: eval_getrequest char_of_4)
  from getrequest_parsed_invariant [OF h, of REQ_RANGE] h show ?thesis by simp
qed

text \<open>
  Claim C6 as stated fails: a request line with an empty target parses successfully, and
  the stored value of \<open>Range\<close> holds a line feed.
\<close>

theorem getrequest_empty_target_counterexample:
  "getrequest example_cfg
     (example_world
        [RdData (''GET  HTTP/1.1'' @ crlf @ ''Range: a'' @ nl @ ''b'' @ crlf @ crlf)] []) =
   (Parsed \<lparr>method = M_GET, target = [],
            field = empty_fields(REQ_RANGE := ''a'' @ nl @ ''b'')\<rparr>, example_world [] [])"
  by (simp add: eval_getrequest)

text \<open>
  Claim C7 fails on the code. A percent sign followed by one hexadecimal digit is decoded
  to a byte, and the character after the digit is swallowed; at the end of the string the
  scan steps over the terminator and decodes the bytes that lie behind it. A \<open>0x\<close> after
  the percent sign is decoded to a NUL byte. White space or a sign between the percent
  sign and the digits is accepted as well, and the two characters skipped are then not
  the digits.
\<close>

theorem decode_single_digit:
  "decode ''%4zz'' [] = [CHR 0x04, CHR ''z''] \<and>
   decode ''%4'' [] = [CHR 0x04] \<and>
   decode ''%4'' [''xy''] = [CHR 0x04, CHR ''x'', CHR ''y''] \<and>
   decode ''%0x41'' [] = [CHR 0x00, CHR ''4'', CHR ''1''] \<and>
   decode ''% 41'' [] = ''A1'' \<and> decode ''%+4z'' [] = [CHR 0x04, CHR ''z'']"
  by code_simp

text \<open>
  Claim C8, amended. A header made of lines that each end in CR LF, where every line that
  begins with \<open>Range\<close> or \<open>If-Modified-Since\<close> goes on with a colon and a value that fits,
  is read without error: lines that do not begin with a recognized name are skipped, and
  each line that does overwrites the slot of its field, so the last one wins. A line that
  begins with a recognized name not followed by a colon (as \<open>Ranges: x\<close>) is answered
  with 400, and so is a last line without CR LF.
\<close>

theorem parse_fields_lines_stored:
  "(list_all (line_ok fmax) ls \<longrightarrow>
      parse_fields fmax (header_lines ls) f = Inr (foldl store_line f ls)) \<and>
   (match_field p = Some i \<and> cget p (length (req_field_str i)) \<noteq> CHR '':'' \<longrightarrow>
      parse_fields fmax p f = Inl S_BAD_REQUEST) \<and>
   (u \<noteq> [] \<and> match_field u = None \<and> strstr u crlf = None \<longrightarrow>
      parse_fields fmax u f = Inl S_BAD_REQUEST)"
proof (intro conjI impI)
  assume "list_all (line_ok fmax) ls"
  then show "parse_fields fmax (header_lines ls) f = Inr (foldl store_line f ls)"
    by (intro parse_fields_lines) (simp add: list_all_iff)
next
  assume "match_field p = Some i \<and> cget p (length (req_field_str i)) \<noteq> CHR '':''"
  then show "parse_fields fmax p f = Inl S_BAD_REQUEST"
    using parse_fields_no_colon by blast
next
  assume "u \<noteq> [] \<and> match_field u = None \<and> strstr u crlf = None"
  then show "parse_fields fmax u f = Inl S_BAD_REQUEST"
    by (subst parse_fields.simps) simp
qed

theorem parse_fields_lines_stored_witness:
  "list_all (line_ok 200) [''Host: example'', ''Range: bytes=0-1'', ''Range:  bytes=5-9''] \<and>
   parse_fields 200
     (header_lines [''Host: example'', ''Range: bytes=0-1'', ''Range:  bytes=5-9''])
     empty_fields =
   Inr (foldl store_line empty_fields
          [''Host: example'', ''Range: bytes=0-1'', ''Range:  bytes=5-9'']) \<and>
   foldl store_line empty_fields
     [''Host: example'', ''Range: bytes=0-1'', ''Range:  bytes=5-9''] REQ_RANGE = ''bytes=5-9'' \<and>
   match_field (''Ranges: x'' @ crlf) = Some REQ_RANGE \<and>
   cget (''Ranges: x'' @ crlf) (length (req_field_str REQ_RANGE)) \<noteq> CHR '':'' \<and>
   parse_fields 200 (''Ranges: x'' @ crlf) empty_fields = Inl S_BAD_REQUEST \<and>
   ''Host: x'' \<noteq> [] \<and> match_field ''Host: x'' = None \<and> strstr ''Host: x'' crlf = None \<and>
   parse_fields 200 ''Host: x'' empty_fields = Inl S_BAD_REQUEST"
proof -
  have h1: "list_all (line_ok 200)
      [''Host: example'', ''Range: bytes=0-1'', ''Range:  bytes=5-9'']"
    by (simp add: line_ok_def match_field_def crlf_def cget_def line_value_def)
  have h2: "match_field (''Ranges: x'' @ crlf) = Some REQ_RANGE \<and>
      cget (''Ranges: x'' @ crlf) (length (req_field_str REQ_RANGE)) \<noteq> CHR '':''"
    by (simp add: match_field_def crlf_def cget_def)
  have h3: "''Host: x'' \<noteq> [] \<and> match_field ''Host: x'' = None \<and> strstr ''Host: x'' crlf = None"
    by (simp add: match_field_def crlf_def)
  have v: "foldl store_line empty_fields
     [''Host: example'', ''Range: bytes=0-1'', ''Range:  bytes=5-9''] REQ_RANGE = ''bytes=5-9''"
    by (simp add: store_line_def match_field_def line_value_def)
  from parse_fields_lines_stored
    [of 200 "[''Host: example'', ''Range: bytes=0-1'', ''Range:  bytes=5-9'']" empty_fields
      "''Ranges: x'' @ crlf" REQ_RANGE "''Host: x''"] h1 h2 h3 v
  show ?thesis by blast
qed

text \<open>
  Claim C8 as stated fails: the line \<open>Ranges: x\<close>, whose name is not a recognized one, is
  not skipped; the request is answered with 400.
\<close>

theorem getrequest_ranges_counterexample:
  "fst (getrequest example_cfg
     (example_world [RdData (''GET / HTTP/1.1'' @ crlf @ ''Ranges: x'' @ crlf @ crlf)] [])) =
   Failed S_BAD_REQUEST"
  by (simp add: eval_getrequest)

section \<open>Socket writes leave the file system log alone\<close>















section \<open>Components of visible normalized paths\<close>


lemma split_slash_ne [simp]: "split_slash s \<noteq> []"
  by (induction s) auto














section \<open>Containment of the response planner\<close>














lemma fslog_fclose [simp]: "fslog (fclose name w) = fslog w"
  by (simp add: fclose_def)



lemmas eval_example = example_cfg_def example_world_def example_host_def example_request_def
  example_stat_def example_fopen_def example_scandir_def example_fmt_time_def
  example_parse_time_def empty_fields_def

lemmas eval_strings = crlf_def nl_def tab_def dq_def NUL_def cget_def strchr_def strrchr_def
  cstr_def dec.simps digit_char_def zu_def atoi_def isspace_def decval_def

lemmas eval_norm = normabspath_def normloop.simps seg_end_def backup_def hidden_def

lemmas eval_send = dprintf_def sendstatus_def status_line_def timestamp_def logfs_def fclose_def
  write_call_def write_all.simps send_body.simps sendfile_def senddir_def

lemmas eval_plan = sendresponse_def plan_def plan_index_def plan_file_def plan_cond_def
  plan_range_def mime_of_def answered_def S_ISDIR_def S_ISREG_def encode_def iscntrl_def









section \<open>The planner and the file sender on concrete requests\<close>

text \<open>
  Claim C2 fails on the code. \<open>GET /a.txt\<close> with an \<open>If-Modified-Since\<close> time equal to the
  modification time of the file: after the 304 header the planner does not return; it
  goes on to the range step and to \<open>sendfile\<close>, which writes a 200 header and the whole
  file, and the returned status is 200.
\<close>

theorem sendresponse_not_modified_falls_through:
  "sendresponse example_host example_cfg (example_request M_GET ''/a.txt'' [] ''@1000'')
     (example_world [] []) =
   (S_OK,
    (example_world [] [])
      \<lparr>sent :=
         ''HTTP/1.1 304 Not Modified'' @ crlf @
         ''Date: Thu, 01 Jan 2026 00:00:00 GMT'' @ crlf @
         ''Connection: close'' @ crlf @
         crlf @
         ''HTTP/1.1 200 OK'' @ crlf @
         ''Date: Thu, 01 Jan 2026 00:00:00 GMT'' @ crlf @
         ''Connection: close'' @ crlf @
         ''Last-Modified: @1000'' @ crlf @
         ''Content-Type: text/plain'' @ crlf @
         ''Content-Length: 10'' @ crlf @
         crlf @
         ''0123456789'',
       fslog := [Stat ''/a.txt'', Fopen ''/a.txt'']\<rparr>)"
  by (simp add: eval_example eval_strings eval_norm eval_send eval_plan Let_def)

text \<open>
  Claim C3 fails on the code. \<open>GET /big.bin\<close>, a file of 1000 bytes, with
  \<open>Range: bytes=100-199\<close>: the body is the 100 bytes from offset 100, but the headers say
  \<open>Content-Length: 99\<close> and \<open>Content-Range: bytes 100-198/1000\<close>.
\<close>

theorem sendresponse_range_headers_short:
  "sendresponse example_host example_cfg (example_request M_GET ''/big.bin'' ''bytes=100-199'' [])
     (example_world [] []) =
   (S_PARTIAL_CONTENT,
    (example_world [] [])
      \<lparr>sent :=
         ''HTTP/1.1 206 Partial Content'' @ crlf @
         ''Date: Thu, 01 Jan 2026 00:00:00 GMT'' @ crlf @
         ''Connection: close'' @ crlf @
         ''Last-Modified: @1000'' @ crlf @
         ''Content-Type: application/octet-stream'' @ crlf @
         ''Content-Length: 99'' @ crlf @
         ''Content-Range: bytes 100-198/1000'' @ crlf @
         crlf @
         replicate 100 (CHR ''x''),
       fslog := [Stat ''/big.bin'', Fopen ''/big.bin'']\<rparr>)"
  by (simp add: eval_example eval_strings eval_norm eval_send eval_plan Let_def)

text \<open>
  Claim C4 fails on the code. \<open>GET /big.bin\<close>, a file of 1000 bytes, with
  \<open>Range: bytes=1500-2000\<close>: the planner hands \<open>lower = 1500\<close> and \<open>upper = 1000\<close> to
  \<open>sendfile\<close>, so \<open>lower \<le> upper\<close> does not hold.
\<close>

theorem plan_window_beyond_size:
  "plan example_host example_cfg (example_request M_GET ''/big.bin'' ''bytes=1500-2000'' [])
     (example_world [] []) =
   (ToFile ''/big.bin'' \<lparr>st_mode = F_REG, st_size = 1000, st_mtime = 1000\<rparr>
      ''application/octet-stream'' 1500 1000,
    (example_world [] [])\<lparr>fslog := [Stat ''/big.bin'']\<rparr>) \<and>
   \<not> (1500 \<le> (1000 :: int))"
  by (simp add: eval_example eval_strings eval_norm eval_send eval_plan Let_def)

text \<open>
  Claim C9 fails on the code. \<open>GET /a.txt\<close> on a socket that takes the two header writes
  and fails on the first write of the body: \<open>sendfile\<close> returns 408 and the file is still
  open. When the second header write fails instead, the file has been closed.
\<close>

theorem sendfile_body_error_leaves_open:
  "fst (sendfile example_host example_cfg (example_request M_GET ''/a.txt'' [] []) ''/a.txt''
          \<lparr>st_mode = F_REG, st_size = 10, st_mtime = 1000\<rparr> ''text/plain'' 0 10
          (example_world [] [WrAccept 4096, WrAccept 4096, WrFail])) = S_REQUEST_TIMEOUT \<and>
   fopened (snd (sendfile example_host example_cfg (example_request M_GET ''/a.txt'' [] [])
          ''/a.txt'' \<lparr>st_mode = F_REG, st_size = 10, st_mtime = 1000\<rparr> ''text/plain'' 0 10
          (example_world [] [WrAccept 4096, WrAccept 4096, WrFail]))) = [''/a.txt''] \<and>
   fst (sendfile example_host example_cfg (example_request M_GET ''/a.txt'' [] []) ''/a.txt''
          \<lparr>st_mode = F_REG, st_size = 10, st_mtime = 1000\<rparr> ''text/plain'' 0 10
          (example_world [] [WrAccept 4096, WrFail])) = S_REQUEST_TIMEOUT \<and>
   fopened (snd (sendfile example_host example_cfg (example_request M_GET ''/a.txt'' [] [])
          ''/a.txt'' \<lparr>st_mode = F_REG, st_size = 10, st_mtime = 1000\<rparr> ''text/plain'' 0 10
          (example_world [] [WrAccept 4096, WrFail]))) = []"
  by (simp add: eval_example eval_strings eval_send Let_def)

end
